theory Spec2Isabelle
  imports Complex_Main
begin

text \<open>
  The Vanish e-mail API client of \<^verbatim>\<open>vanish.py\<close>: each operation of \<^verbatim>\<open>VanishClient\<close> as a
  function that takes the state of the world and returns its result, or the exception it
  raises, together with the new state. The standard library is modelled where the client's
  results depend on what it computes (\<^verbatim>\<open>urllib.parse\<close>, \<^verbatim>\<open>str\<close>, \<^verbatim>\<open>datetime.fromisoformat\<close>,
  \<^verbatim>\<open>time\<close>) and is a parameter where they do not (\<^verbatim>\<open>urlopen\<close>, the JSON codec).
\<close>

section \<open>Python values and exceptions\<close>

text \<open>
  The client is dynamically typed: whatever \<^verbatim>\<open>json.loads\<close> returns is indexed, iterated and
  stored in the dataclasses without validation. The model therefore keeps decoded JSON as a
  value of its own type and writes out, for each Python operation the client applies to such a
  value, what it returns and which exception it raises. A Python \<^verbatim>\<open>str\<close> is represented by
  the list of its UTF-8 bytes, and a \<^verbatim>\<open>dict\<close> by the list of its keys, each once, with their
  values.
\<close>

datatype pyfloat = Finite real | PosInf | NegInf | NaN

datatype json =
    JNull
  | JBool bool
  | JInt int
  | JFloat pyfloat
  | JStr string
  | JArr "json list"
  | JObj "(string \<times> json) list"

text \<open>
  \<open>VanishError message status_code\<close> is the library's own exception; the message is whatever
  \<^verbatim>\<open>error_body.get("error", str(e))\<close> yields, so it is a JSON value. The other constructors are
  the built-in exceptions that the client's code can let through; \<open>Propagated name\<close> stands
  for an exception raised by the transport that \<^verbatim>\<open>_request\<close> does not catch.
\<close>

datatype error =
    VanishError json "int option"
  | KeyError string
  | TypeError
  | AttributeError
  | ValueError
  | JSONDecodeError
  | UnicodeDecodeError
  | Propagated string

definition andthen :: "error + 'a \<Rightarrow> ('a \<Rightarrow> error + 'b) \<Rightarrow> error + 'b" where
  "andthen r f = (case r of Inl e \<Rightarrow> Inl e | Inr v \<Rightarrow> f v)"

text \<open>\<^verbatim>\<open>x[key]\<close> with a string key.\<close>

fun subscript :: "json \<Rightarrow> string \<Rightarrow> error + json" where
  "subscript (JObj m) k = (case map_of m k of None \<Rightarrow> Inl (KeyError k) | Some v \<Rightarrow> Inr v)"
| "subscript _ k = Inl TypeError"

text \<open>\<^verbatim>\<open>x.get(key, default)\<close>: only a dict has the method.\<close>

fun get_default :: "json \<Rightarrow> string \<Rightarrow> json \<Rightarrow> error + json" where
  "get_default (JObj m) k d = (case map_of m k of None \<Rightarrow> Inr d | Some v \<Rightarrow> Inr v)"
| "get_default _ k d = Inl AttributeError"

text \<open>
  \<^verbatim>\<open>for e in x\<close>: a list yields its items, a dict its keys, a string its characters (here
  one per byte; whatever their number, none of them can be subscripted by a string).
\<close>

fun iterate :: "json \<Rightarrow> error + json list" where
  "iterate (JArr xs) = Inr xs"
| "iterate (JObj m) = Inr (map (\<lambda>kv. JStr (fst kv)) m)"
| "iterate (JStr s) = Inr (map (\<lambda>c. JStr [c]) s)"
| "iterate _ = Inl TypeError"

text \<open>\<^verbatim>\<open>x > n\<close> for an integer \<open>n\<close>: numbers compare (a bool is an int), anything else raises.\<close>

fun py_gt :: "json \<Rightarrow> int \<Rightarrow> error + bool" where
  "py_gt (JInt i) n = Inr (i > n)"
| "py_gt (JBool b) n = Inr ((if b then 1 else 0) > n)"
| "py_gt (JFloat (Finite x)) n = Inr (x > of_int n)"
| "py_gt (JFloat PosInf) n = Inr True"
| "py_gt (JFloat NegInf) n = Inr False"
| "py_gt (JFloat NaN) n = Inr False"
| "py_gt _ n = Inl TypeError"

text \<open>The single-pass loop \<^verbatim>\<open>[f(e) for e in xs]\<close>: the first exception ends it.\<close>

fun comprehension :: "('a \<Rightarrow> error + 'b) \<Rightarrow> 'a list \<Rightarrow> error + 'b list" where
  "comprehension f [] = Inr []"
| "comprehension f (x # xs) =
     (case f x of
        Inl e \<Rightarrow> Inl e
      | Inr y \<Rightarrow> (case comprehension f xs of Inl e \<Rightarrow> Inl e | Inr ys \<Rightarrow> Inr (y # ys)))"

section \<open>Strings\<close>

definition join :: "string \<Rightarrow> string list \<Rightarrow> string" where
  "join sep xs = (case xs of [] \<Rightarrow> [] | y # ys \<Rightarrow> y @ concat (map (\<lambda>z. sep @ z) ys))"

text \<open>\<^verbatim>\<open>s.rstrip("/")\<close> removes every trailing slash.\<close>

definition rstrip_slash :: "string \<Rightarrow> string" where
  "rstrip_slash s = rev (dropWhile (\<lambda>c. c = CHR ''/'') (rev s))"

text \<open>\<^verbatim>\<open>s.replace(old, new)\<close> for a pattern \<open>old\<close> of one character, as in the source.\<close>

definition replace :: "string \<Rightarrow> char \<Rightarrow> string \<Rightarrow> string" where
  "replace s old new = concat (map (\<lambda>c. if c = old then new else [c]) s)"

definition digit_char :: "nat \<Rightarrow> char" where
  "digit_char n = ''0123456789'' ! n"

function str_nat :: "nat \<Rightarrow> string" where
  "str_nat n = (if n < 10 then [digit_char n] else str_nat (n div 10) @ [digit_char (n mod 10)])"
  by pat_completeness auto
termination
  by (relation "measure (\<lambda>n. n)") auto

text \<open>\<^verbatim>\<open>str(i)\<close> for an int.\<close>

definition str_int :: "int \<Rightarrow> string" where
  "str_int i = (if i < 0 then CHR ''-'' # str_nat (nat (- i)) else str_nat (nat i))"

section \<open>Percent-encoding (\<^verbatim>\<open>urllib.parse\<close>)\<close>

text \<open>
  \<^verbatim>\<open>quote\<close> encodes the string as UTF-8 and maps each byte on its own: a byte of
  \<^verbatim>\<open>_ALWAYS_SAFE\<close> or of the ASCII part of \<open>safe\<close> stays, every other byte becomes
  \<^verbatim>\<open>'%{:02X}'.format(b)\<close>.
\<close>

definition ALWAYS_SAFE :: "char set" where
  "ALWAYS_SAFE = set (''ABCDEFGHIJKLMNOPQRSTUVWXYZ'' @ ''abcdefghijklmnopqrstuvwxyz''
                       @ ''0123456789'' @ ''_.-~'')"

definition hex_char :: "nat \<Rightarrow> char" where
  "hex_char n = ''0123456789ABCDEF'' ! n"

definition percent :: "char \<Rightarrow> string" where
  "percent c = [CHR ''%'', hex_char (of_char c div 16), hex_char (of_char c mod 16)]"

definition quoter :: "string \<Rightarrow> char \<Rightarrow> string" where
  "quoter safe c =
     (if c \<in> ALWAYS_SAFE \<union> set (filter (\<lambda>d. (of_char d :: nat) < 128) safe) then [c]
      else percent c)"

definition quote :: "string \<Rightarrow> string \<Rightarrow> string" where
  "quote s safe = concat (map (quoter safe) s)"

definition quote_plus :: "string \<Rightarrow> string \<Rightarrow> string" where
  "quote_plus s safe =
     (if CHR '' '' \<notin> set s then quote s safe
      else replace (quote s (safe @ '' '')) (CHR '' '') ''+'')"

text \<open>\<^verbatim>\<open>_hextobyte\<close>: two hexadecimal digits of either case name a byte.\<close>

definition hex_val :: "char \<Rightarrow> nat option" where
  "hex_val c = map_of (zip ''0123456789ABCDEFabcdef''
                 [0, 1, 2, 3, 4, 5, 6, 7, 8, 9, 10, 11, 12, 13, 14, 15, 10, 11, 12, 13, 14, 15]) c"

text \<open>
  \<^verbatim>\<open>unquote\<close>: a \<^verbatim>\<open>%\<close> followed by two hexadecimal digits is replaced by the byte they name;
  any other \<^verbatim>\<open>%\<close> is kept as it is.
\<close>

fun unquote :: "string \<Rightarrow> string" where
  "unquote [] = []"
| "unquote [c] = [c]"
| "unquote [c, d] = [c, d]"
| "unquote (c # h # l # rest) =
     (if c = CHR ''%'' then
        (case (hex_val h, hex_val l) of
           (Some a, Some b) \<Rightarrow> char_of (16 * a + b) # unquote rest
         | _ \<Rightarrow> c # unquote (h # l # rest))
      else c # unquote (h # l # rest))"

text \<open>A query parameter value: \<^verbatim>\<open>None\<close>, an int or a string.\<close>

datatype param = PNone | PInt int | PStr string

fun str_param :: "param \<Rightarrow> string" where
  "str_param PNone = ''None''"
| "str_param (PInt i) = str_int i"
| "str_param (PStr s) = s"

definition urlencode :: "(string \<times> param) list \<Rightarrow> string" where
  "urlencode query =
     join ''&'' (map (\<lambda>kv. quote_plus (fst kv) '''' @ ''='' @ quote_plus (str_param (snd kv)) '''') query)"

section \<open>Timestamps (\<^verbatim>\<open>datetime.fromisoformat\<close>)\<close>

text \<open>
  A \<^verbatim>\<open>datetime\<close> is naive when \<open>tzinfo\<close> is \<open>None\<close> and aware otherwise; an aware one carries
  its offset from UTC in microseconds, so \<^verbatim>\<open>timezone.utc\<close> is \<open>Some 0\<close>.
\<close>

record datetime =
  year :: nat
  month :: nat
  day :: nat
  hour :: nat
  minute :: nat
  second :: nat
  microsecond :: nat
  tzinfo :: "int option"

text \<open>
  The parser below follows \<^verbatim>\<open>datetime.fromisoformat\<close> of CPython 3.11 and 3.12, function by
  function and under the names of \<^verbatim>\<open>Modules/_datetimemodule.c\<close>. It reads a date
  (\<^verbatim>\<open>YYYY-MM-DD\<close>, \<^verbatim>\<open>YYYYMMDD\<close>, \<^verbatim>\<open>YYYY-Www\<close>, \<^verbatim>\<open>YYYY-Www-D\<close>, \<^verbatim>\<open>YYYYWww\<close> or \<^verbatim>\<open>YYYYWwwD\<close>), then
  one separator character of any kind, then a time (\<^verbatim>\<open>HH\<close>, \<^verbatim>\<open>HH:MM\<close>, \<^verbatim>\<open>HH:MM:SS\<close> or the same
  without colons, with an optional fraction after a point or a comma, of which six digits
  count), then an optional \<^verbatim>\<open>Z\<close> or offset. The string is scanned as its UTF-8 bytes. Where
  the C code hands a function a buffer and the place where its part ends, the function here is
  given that part; the only byte that the C code can read past the end of a part is the string
  terminator or the \<^verbatim>\<open>Z\<close>, \<^verbatim>\<open>+\<close> or \<^verbatim>\<open>-\<close> that starts the offset, and on each of them it
  does what it does here at the end of the part. Every rejected string raises \<^verbatim>\<open>ValueError\<close>.
\<close>

definition is_digit :: "char \<Rightarrow> bool" where
  "is_digit c = (c \<in> set ''0123456789'')"

text \<open>\<^verbatim>\<open>parse_digits\<close> reads exactly \<open>num_digits\<close> digits from the front of its input.\<close>

definition parse_digits :: "nat \<Rightarrow> string \<Rightarrow> nat option" where
  "parse_digits num_digits p =
     (if num_digits \<le> length p \<and> list_all is_digit (take num_digits p)
      then Some (foldl (\<lambda>var c. 10 * var + (of_char c - 48)) 0 (take num_digits p))
      else None)"

text \<open>The proleptic Gregorian calendar, counted in days from 0001-01-01 as day 1.\<close>

definition is_leap :: "int \<Rightarrow> bool" where
  "is_leap y = (y mod 4 = 0 \<and> (y mod 100 \<noteq> 0 \<or> y mod 400 = 0))"

definition days_in_month_table :: "int list" where
  "days_in_month_table = [31, 28, 31, 30, 31, 30, 31, 31, 30, 31, 30, 31]"

definition days_before_month_table :: "int list" where
  "days_before_month_table = [0, 31, 59, 90, 120, 151, 181, 212, 243, 273, 304, 334]"

definition days_in_month :: "int \<Rightarrow> int \<Rightarrow> int" where
  "days_in_month y m =
     (if m = 2 \<and> is_leap y then 29 else days_in_month_table ! nat (m - 1))"

definition days_before_year :: "int \<Rightarrow> int" where
  "days_before_year yr = (let y = yr - 1 in y * 365 + y div 4 - y div 100 + y div 400)"

definition days_before_month :: "int \<Rightarrow> int \<Rightarrow> int" where
  "days_before_month y m =
     days_before_month_table ! nat (m - 1) + (if 2 < m \<and> is_leap y then 1 else 0)"

definition ymd_to_ord :: "int \<Rightarrow> int \<Rightarrow> int \<Rightarrow> int" where
  "ymd_to_ord y m d = days_before_year y + days_before_month y m + d"

definition ord_to_ymd :: "int \<Rightarrow> int \<times> int \<times> int" where
  "ord_to_ymd ordinal =
     (let n = ordinal - 1;
          n400 = n div 146097; n = n mod 146097;
          n100 = n div 36524; n = n mod 36524;
          n4 = n div 1461; n = n mod 1461;
          n1 = n div 365; n = n mod 365;
          yr = n400 * 400 + 1 + n100 * 100 + n4 * 4 + n1
      in if n1 = 4 \<or> n100 = 4 then (yr - 1, 12, 31)
         else
           let leapyear = (n1 = 3 \<and> (n4 \<noteq> 24 \<or> n100 = 3));
               m = (n + 50) div 32;
               preceding = days_before_month_table ! nat (m - 1)
                           + (if 2 < m \<and> leapyear then 1 else 0)
           in if n < preceding
              then let m = m - 1;
                       preceding = preceding - (days_in_month_table ! nat (m - 1)
                                                + (if m = 2 \<and> leapyear then 1 else 0))
                   in (yr, m, n - preceding + 1)
              else (yr, m, n - preceding + 1))"

text \<open>Monday is weekday 0.\<close>

definition weekday :: "int \<Rightarrow> int \<Rightarrow> int \<Rightarrow> int" where
  "weekday y m d = (ymd_to_ord y m d + 6) mod 7"

definition iso_week1_monday :: "int \<Rightarrow> int" where
  "iso_week1_monday yr =
     (let first_day = ymd_to_ord yr 1 1;
          first_weekday = (first_day + 6) mod 7;
          week1_monday = first_day - first_weekday
      in if 3 < first_weekday then week1_monday + 7 else week1_monday)"

text \<open>
  A week date becomes a calendar date. Version 3.12 refuses a year outside 1 to 9999 here;
  version 3.11 lets the year 0 through and refuses the date it gets, which lies before
  0001-01-01, when it builds the result.
\<close>

definition iso_to_ymd :: "nat \<Rightarrow> nat \<Rightarrow> nat \<Rightarrow> error + (nat \<times> nat \<times> nat)" where
  "iso_to_ymd iso_year iso_week iso_day =
     (if iso_year < 1 \<or> 9999 < iso_year then Inl ValueError
      else if (iso_week = 0 \<or> 53 \<le> iso_week)
              \<and> \<not> (iso_week = 53
                   \<and> (weekday (int iso_year) 1 1 = 3
                       \<or> weekday (int iso_year) 1 1 = 2 \<and> is_leap (int iso_year)))
      then Inl ValueError
      else if iso_day = 0 \<or> 8 \<le> iso_day then Inl ValueError
      else case ord_to_ymd (iso_week1_monday (int iso_year)
                            + (int iso_week - 1) * 7 + int iso_day - 1) of
             (y, m, d) \<Rightarrow> Inr (nat y, nat m, nat d))"

text \<open>
  Where the date ends, decided from the characters at 4, 5, 8 and 10 and from the run of digits
  that starts at 7. It is called on strings of at least 7 bytes.
\<close>

definition find_isoformat_datetime_separator :: "string \<Rightarrow> nat option" where
  "find_isoformat_datetime_separator dtstr =
     (let len = length dtstr in
      if len = 7 then Some 7
      else if dtstr ! 4 = CHR ''-'' then
        (if dtstr ! 5 = CHR ''W'' then
           (if 8 < len \<and> dtstr ! 8 = CHR ''-'' then
              (if len = 9 then None
               else if 10 < len \<and> is_digit (dtstr ! 10) then Some 8
               else Some 10)
            else Some 8)
         else Some 10)
      else if dtstr ! 4 = CHR ''W'' then
        (let idx = 7 + length (takeWhile is_digit (drop 7 dtstr)) in
         if idx < 9 then Some idx else if even idx then Some 7 else Some 8)
      else Some 8)"

text \<open>The date, from the characters before the separator.\<close>

definition parse_isoformat_date :: "string \<Rightarrow> error + (nat \<times> nat \<times> nat)" where
  "parse_isoformat_date dtstr =
     (case parse_digits 4 dtstr of
        None \<Rightarrow> Inl ValueError
      | Some y \<Rightarrow>
          let uses_separator = (take 1 (drop 4 dtstr) = ''-'');
              p = (if uses_separator then drop 5 dtstr else drop 4 dtstr)
          in if take 1 p = ''W'' then
               (case parse_digits 2 (drop 1 p) of
                  None \<Rightarrow> Inl ValueError
                | Some iso_week \<Rightarrow>
                    let q = drop 3 p in
                    if q = [] then iso_to_ymd y iso_week 1
                    else if uses_separator \<and> take 1 q \<noteq> ''-'' then Inl ValueError
                    else (case parse_digits 1 (if uses_separator then drop 1 q else q) of
                            None \<Rightarrow> Inl ValueError
                          | Some iso_day \<Rightarrow> iso_to_ymd y iso_week iso_day))
             else
               (case parse_digits 2 p of
                  None \<Rightarrow> Inl ValueError
                | Some m \<Rightarrow>
                    let q = drop 2 p in
                    if uses_separator \<and> take 1 q \<noteq> ''-'' then Inl ValueError
                    else (case parse_digits 2 (if uses_separator then drop 1 q else q) of
                            None \<Rightarrow> Inl ValueError
                          | Some d \<Rightarrow> Inr (y, m, d))))"

text \<open>
  \<^verbatim>\<open>parse_hh_mm_ss_ff\<close> reads hour, minute and second in a loop of three rounds and then the
  fraction. Its result is the four numbers and a flag that tells whether it stopped before
  the end of its input. \<open>vals\<close> holds the components read so far, the missing ones being 0.
\<close>

definition component :: "nat list \<Rightarrow> nat \<Rightarrow> nat" where
  "component vals i = (if i < length vals then vals ! i else 0)"

text \<open>The fraction: at most six digits are read, scaled to microseconds; further digits are skipped.\<close>

definition parse_ff :: "nat list \<Rightarrow> string \<Rightarrow> error + ((nat \<times> nat \<times> nat \<times> nat) \<times> bool)" where
  "parse_ff vals p =
     (let to_parse = min 6 (length p) in
      case parse_digits to_parse p of
        None \<Rightarrow> Inl ValueError
      | Some us \<Rightarrow>
          Inr ((component vals 0, component vals 1, component vals 2, us * 10 ^ (6 - to_parse)),
               dropWhile is_digit (drop to_parse p) \<noteq> []))"

text \<open>
  The loop, with the number of rounds left as its first argument; the first round, the one
  with no component read yet, decides whether the components are separated by colons.
\<close>

fun parse_hh_mm_ss ::
  "nat \<Rightarrow> bool \<Rightarrow> nat list \<Rightarrow> string \<Rightarrow> error + ((nat \<times> nat \<times> nat \<times> nat) \<times> bool)" where
  "parse_hh_mm_ss 0 has_separator vals p = parse_ff vals p"
| "parse_hh_mm_ss (Suc rounds) has_separator vals p =
     (case parse_digits 2 p of
        None \<Rightarrow> Inl ValueError
      | Some v \<Rightarrow>
          let c = take 1 (drop 2 p);
              colons = (if vals = [] then c = '':'' else has_separator);
              read = vals @ [v]
          in if length p \<le> 3
             then Inr ((component read 0, component read 1, component read 2, 0), c \<noteq> [])
             else if colons \<and> c = '':'' then parse_hh_mm_ss rounds colons read (drop 3 p)
             else if c = ''.'' \<or> c = '','' then parse_ff read (drop 3 p)
             else if \<not> colons then parse_hh_mm_ss rounds colons read (drop 2 p)
             else Inl ValueError)"

definition parse_hh_mm_ss_ff :: "string \<Rightarrow> error + ((nat \<times> nat \<times> nat \<times> nat) \<times> bool)" where
  "parse_hh_mm_ss_ff tstr = parse_hh_mm_ss 3 True [] tstr"

text \<open>
  The time and the offset. The offset starts at the first \<^verbatim>\<open>Z\<close>, \<^verbatim>\<open>+\<close> or \<^verbatim>\<open>-\<close>; what the time
  parser leaves unread is an error only when there is no offset. The result is the time with
  the offset in seconds and the offset's fraction in microseconds, if there is an offset.
\<close>

definition parse_isoformat_time ::
  "string \<Rightarrow> error + ((nat \<times> nat \<times> nat \<times> nat) \<times> (int \<times> int) option)" where
  "parse_isoformat_time dtstr =
     (let tzinfo_pos = length (takeWhile (\<lambda>c. c \<notin> set ''Z+-'') dtstr) in
      andthen (parse_hh_mm_ss_ff (take tzinfo_pos dtstr)) (\<lambda>(t, unread).
        if tzinfo_pos = length dtstr then (if unread then Inl ValueError else Inr (t, None))
        else if dtstr ! tzinfo_pos = CHR ''Z''
        then (if Suc tzinfo_pos \<noteq> length dtstr then Inl ValueError else Inr (t, Some (0, 0)))
        else
          andthen (parse_hh_mm_ss_ff (drop (Suc tzinfo_pos) dtstr))
            (\<lambda>((tzhour, tzminute, tzsecond, tzmicrosecond), unread).
               let tzsign = (if dtstr ! tzinfo_pos = CHR ''-'' then - 1 else 1) in
               if unread then Inl ValueError
               else Inr (t, Some (tzsign * (int tzhour * 3600 + int tzminute * 60 + int tzsecond),
                                  tzsign * int tzmicrosecond)))))"

text \<open>
  An offset of zero seconds is \<^verbatim>\<open>timezone.utc\<close>, whatever its fraction; any other offset must
  lie strictly between minus and plus 24 hours.
\<close>

definition tzinfo_from_isoformat_results :: "(int \<times> int) option \<Rightarrow> error + int option" where
  "tzinfo_from_isoformat_results tz =
     (case tz of
        None \<Rightarrow> Inr None
      | Some (tzoffset, tz_useconds) \<Rightarrow>
          if tzoffset = 0 then Inr (Some 0)
          else let delta = tzoffset * 1000000 + tz_useconds in
               if - 86400000000 < delta \<and> delta < 86400000000 then Inr (Some delta)
               else Inl ValueError)"

text \<open>The range checks of the \<^verbatim>\<open>datetime\<close> constructor.\<close>

definition make_datetime ::
  "nat \<times> nat \<times> nat \<Rightarrow> (nat \<times> nat \<times> nat \<times> nat) \<times> int option \<Rightarrow> error + datetime" where
  "make_datetime d t =
     (case (d, t) of ((y, mo, dd), ((h, mi, s, us), tz)) \<Rightarrow>
        if 1 \<le> y \<and> y \<le> 9999 \<and> 1 \<le> mo \<and> mo \<le> 12
           \<and> 1 \<le> dd \<and> int dd \<le> days_in_month (int y) (int mo)
           \<and> h \<le> 23 \<and> mi \<le> 59 \<and> s \<le> 59 \<and> us \<le> 999999
        then Inr \<lparr>year = y, month = mo, day = dd, hour = h, minute = mi, second = s,
                  microsecond = us, tzinfo = tz\<rparr>
        else Inl ValueError)"

text \<open>The separator is one character, which takes one to four bytes, told by its first byte.\<close>

definition separator_width :: "char \<Rightarrow> nat" where
  "separator_width c =
     (if (of_char c :: nat) < 128 then 1
      else if (of_char c :: nat) div 16 = 14 then 3
      else if (of_char c :: nat) div 16 = 15 then 4
      else 2)"

definition fromisoformat :: "string \<Rightarrow> error + datetime" where
  "fromisoformat dt_str =
     (if length dt_str < 7 then Inl ValueError
      else case find_isoformat_datetime_separator dt_str of
        None \<Rightarrow> Inl ValueError
      | Some separator_location \<Rightarrow>
          andthen (parse_isoformat_date (take separator_location dt_str)) (\<lambda>d.
          andthen (if separator_location < length dt_str
                   then parse_isoformat_time
                          (drop (separator_location
                                 + separator_width (dt_str ! separator_location)) dt_str)
                   else Inr ((0, 0, 0, 0), None)) (\<lambda>(t, tz).
          andthen (tzinfo_from_isoformat_results tz) (\<lambda>tzinfo.
            make_datetime d (t, tzinfo)))))"

text \<open>
  The expression \<^verbatim>\<open>datetime.fromisoformat(v.replace("Z", "+00:00"))\<close> that \<^verbatim>\<open>list_emails\<close> and
  \<^verbatim>\<open>get_email\<close> apply to the \<^verbatim>\<open>receivedAt\<close> field: only a string has \<^verbatim>\<open>replace\<close>.
\<close>

definition received_at_of :: "json \<Rightarrow> error + datetime" where
  "received_at_of v =
     (case v of
        JStr s \<Rightarrow> fromisoformat (replace s (CHR ''Z'') ''+00:00'')
      | _ \<Rightarrow> Inl AttributeError)"

section \<open>The dataclasses and the client\<close>

text \<open>
  The field values are stored as they come out of the decoded response, so all but the parsed
  timestamp and the lists built by the client are JSON values.
\<close>

record AttachmentMeta =
  am_id :: json
  am_name :: json
  am_type :: json
  am_size :: json

record EmailSummary =
  es_id :: json
  es_sender :: json
  es_subject :: json
  es_text_preview :: json
  es_received_at :: datetime
  es_has_attachments :: json

record EmailDetail =
  ed_id :: json
  ed_sender :: json
  ed_to :: json
  ed_subject :: json
  ed_html :: json
  ed_text :: json
  ed_received_at :: datetime
  ed_has_attachments :: json
  ed_attachments :: "AttachmentMeta list"

record PaginatedEmailList =
  data :: "EmailSummary list"
  next_cursor :: json
  total :: json

record VanishClient =
  base_url :: string
  api_key :: "string option"
  timeout :: int

definition init :: "string \<Rightarrow> string option \<Rightarrow> int \<Rightarrow> VanishClient" where
  "init url key t = \<lparr>base_url = rstrip_slash url, api_key = key, timeout = t\<rparr>"

definition create_client :: "string \<Rightarrow> string option \<Rightarrow> VanishClient" where
  "create_client url key = init url key 30"

section \<open>The transport and the clock\<close>

text \<open>
  \<^verbatim>\<open>urllib.request.Request\<close> as the client builds it, and what
  \<^verbatim>\<open>urlopen(req, timeout)\<close> followed by \<^verbatim>\<open>read()\<close> can do: deliver a 2xx response (body and
  headers), raise \<^verbatim>\<open>HTTPError\<close> (status code, reason phrase, body), raise another
  \<^verbatim>\<open>URLError\<close> (the text of its reason), or raise an exception of some other class, given by
  its name. \<^verbatim>\<open>urllib\<close> turns into a \<^verbatim>\<open>URLError\<close> what fails until the request has been sent: an
  unknown host, a refused connection, a timeout while connecting. What fails afterwards, while
  it waits for the response or reads it, keeps its own class: \<^verbatim>\<open>TimeoutError\<close> when the timeout
  expires, \<^verbatim>\<open>ConnectionResetError\<close> when the peer resets the connection.
\<close>

record Request =
  rq_method :: string
  rq_url :: string
  rq_headers :: "(string \<times> string) list"
  rq_data :: "string option"

datatype outcome =
    Response string "(string \<times> string) list"
  | HTTPError int string string
  | URLError string
  | Raised string

text \<open>
  \<^verbatim>\<open>json.loads(body.decode("utf-8"))\<close> either raises \<^verbatim>\<open>UnicodeDecodeError\<close>, raises
  \<^verbatim>\<open>JSONDecodeError\<close> or returns a value.
\<close>

datatype decoded = Undecodable | Malformed | Parsed json

text \<open>
  The world outside the client: \<open>urlopen n req t\<close> is how long the \<open>n\<close>-th request sent
  takes and how it ends; \<open>json_loads\<close> and \<open>json_dumps\<close> are the JSON codec. The state
  that the client's calls thread through is the clock, the number of requests sent and the
  sequence of requests and sleeps so far. Time passes in requests and in sleeps only, and
  clock readings are real numbers: the rounding of \<^verbatim>\<open>time.time()\<close> is not modelled.
\<close>

record runtime =
  urlopen :: "nat \<Rightarrow> Request \<Rightarrow> int \<Rightarrow> real \<times> outcome"
  json_loads :: "string \<Rightarrow> decoded"
  json_dumps :: "json \<Rightarrow> string"

datatype event = Requested Request | Slept real

record world =
  now :: real
  sent :: nat
  trace :: "event list"

definition send :: "runtime \<Rightarrow> VanishClient \<Rightarrow> Request \<Rightarrow> world \<Rightarrow> outcome \<times> world" where
  "send rt c req w =
     (case urlopen rt (sent w) req (timeout c) of
        (d, oc) \<Rightarrow>
          (oc, w\<lparr>now := now w + d, sent := Suc (sent w), trace := trace w @ [Requested req]\<rparr>))"

text \<open>\<^verbatim>\<open>time.sleep(secs)\<close>: a negative length raises \<^verbatim>\<open>ValueError\<close>.\<close>

definition sleep :: "real \<Rightarrow> world \<Rightarrow> error + world" where
  "sleep secs w =
     (if secs < 0 then Inl ValueError
      else Inr (w\<lparr>now := now w + secs, trace := trace w @ [Slept secs]\<rparr>))"

section \<open>\<^verbatim>\<open>VanishClient._request\<close>\<close>

text \<open>\<^verbatim>\<open>str(e)\<close> of an \<^verbatim>\<open>HTTPError\<close>.\<close>

definition str_HTTPError :: "int \<Rightarrow> string \<Rightarrow> string" where
  "str_HTTPError code msg = ''HTTP Error '' @ str_int code @ '': '' @ msg"

datatype reply = Json json | Raw string "(string \<times> string) list"

definition build_url :: "VanishClient \<Rightarrow> string \<Rightarrow> (string \<times> param) list option \<Rightarrow> string" where
  "build_url c path params =
     (let url = base_url c @ path in
      case params of
        None \<Rightarrow> url
      | Some ps \<Rightarrow>
          if ps = [] then url
          else (let query = urlencode (filter (\<lambda>kv. snd kv \<noteq> PNone) ps)
                in if query \<noteq> [] then url @ ''?'' @ query else url))"

definition build_headers :: "VanishClient \<Rightarrow> (string \<times> string) list" where
  "build_headers c =
     [(''Content-Type'', ''application/json'')] @
     (case api_key c of
        None \<Rightarrow> []
      | Some k \<Rightarrow> if k = [] then [] else [(''Authorization'', ''Bearer '' @ k)])"

definition receive :: "runtime \<Rightarrow> bool \<Rightarrow> outcome \<Rightarrow> error + reply" where
  "receive rt raw_response oc =
     (case oc of
        Response body headers \<Rightarrow>
          if raw_response then Inr (Raw body headers)
          else (case json_loads rt body of
                  Undecodable \<Rightarrow> Inl UnicodeDecodeError
                | Malformed \<Rightarrow> Inl JSONDecodeError
                | Parsed j \<Rightarrow> Inr (Json j))
      | HTTPError code msg body \<Rightarrow>
          (case json_loads rt body of
             Parsed error_body \<Rightarrow>
               andthen (get_default error_body ''error'' (JStr (str_HTTPError code msg)))
                 (\<lambda>message. Inl (VanishError message (Some code)))
           | _ \<Rightarrow> Inl (VanishError (JStr (str_HTTPError code msg)) (Some code)))
      | URLError reason \<Rightarrow> Inl (VanishError (JStr (''Connection error: '' @ reason)) None)
      | Raised name \<Rightarrow> Inl (Propagated name))"

definition build_request ::
  "runtime \<Rightarrow> VanishClient \<Rightarrow> string \<Rightarrow> string \<Rightarrow> (string \<times> param) list option \<Rightarrow>
   (string \<times> json) list option \<Rightarrow> Request" where
  "build_request rt c method path params body =
     \<lparr>rq_method = method,
      rq_url = build_url c path params,
      rq_headers = build_headers c,
      rq_data = (case body of
                   None \<Rightarrow> None
                 | Some b \<Rightarrow> if b = [] then None else Some (json_dumps rt (JObj b)))\<rparr>"

definition request ::
  "runtime \<Rightarrow> VanishClient \<Rightarrow> string \<Rightarrow> string \<Rightarrow> (string \<times> param) list option \<Rightarrow>
   (string \<times> json) list option \<Rightarrow> bool \<Rightarrow> world \<Rightarrow> (error + reply) \<times> world" where
  "request rt c method path params body raw_response w =
     (case send rt c (build_request rt c method path params body) w of
        (oc, w') \<Rightarrow> (receive rt raw_response oc, w'))"

text \<open>What a caller that expects decoded JSON does with the reply.\<close>

definition as_json :: "reply \<Rightarrow> error + json" where
  "as_json r = (case r of Json j \<Rightarrow> Inr j | Raw body headers \<Rightarrow> Inl TypeError)"

section \<open>The operations\<close>

definition get_domains :: "runtime \<Rightarrow> VanishClient \<Rightarrow> world \<Rightarrow> (error + json) \<times> world" where
  "get_domains rt c w =
     (case request rt c ''GET'' ''/domains'' None None False w of
        (r, w') \<Rightarrow> (andthen (andthen r as_json) (\<lambda>resp. subscript resp ''domains''), w'))"

definition generate_email ::
  "runtime \<Rightarrow> VanishClient \<Rightarrow> string option \<Rightarrow> string option \<Rightarrow> world \<Rightarrow> (error + json) \<times> world" where
  "generate_email rt c domain prefix w =
     (let body = (case domain of None \<Rightarrow> [] | Some d \<Rightarrow> if d = [] then [] else [(''domain'', JStr d)])
               @ (case prefix of None \<Rightarrow> [] | Some p \<Rightarrow> if p = [] then [] else [(''prefix'', JStr p)])
      in case request rt c ''POST'' ''/mailbox'' None (if body \<noteq> [] then Some body else None) False w of
        (r, w') \<Rightarrow> (andthen (andthen r as_json) (\<lambda>resp. subscript resp ''email''), w'))"

definition summary_of :: "json \<Rightarrow> error + EmailSummary" where
  "summary_of e =
     andthen (subscript e ''id'') (\<lambda>i.
     andthen (subscript e ''from'') (\<lambda>f.
     andthen (subscript e ''subject'') (\<lambda>s.
     andthen (subscript e ''textPreview'') (\<lambda>p.
     andthen (andthen (subscript e ''receivedAt'') received_at_of) (\<lambda>r.
     andthen (subscript e ''hasAttachments'') (\<lambda>h.
       Inr \<lparr>es_id = i, es_sender = f, es_subject = s, es_text_preview = p,
            es_received_at = r, es_has_attachments = h\<rparr>))))))"

definition list_of :: "json \<Rightarrow> error + PaginatedEmailList" where
  "list_of resp =
     andthen (andthen (subscript resp ''data'') iterate) (\<lambda>es.
     andthen (comprehension summary_of es) (\<lambda>emails.
     andthen (get_default resp ''nextCursor'' JNull) (\<lambda>nc.
     andthen (subscript resp ''total'') (\<lambda>t.
       Inr \<lparr>data = emails, next_cursor = nc, total = t\<rparr>))))"

definition list_emails ::
  "runtime \<Rightarrow> VanishClient \<Rightarrow> string \<Rightarrow> int \<Rightarrow> string option \<Rightarrow> world \<Rightarrow>
   (error + PaginatedEmailList) \<times> world" where
  "list_emails rt c address limit cursor w =
     (let encoded_address = quote address '''' in
      case request rt c ''GET'' (''/mailbox/'' @ encoded_address)
             (Some [(''limit'', PInt limit),
                    (''cursor'', case cursor of None \<Rightarrow> PNone | Some s \<Rightarrow> PStr s)])
             None False w of
        (r, w') \<Rightarrow> (andthen (andthen r as_json) list_of, w'))"

definition attachment_of :: "json \<Rightarrow> error + AttachmentMeta" where
  "attachment_of a =
     andthen (subscript a ''id'') (\<lambda>i.
     andthen (subscript a ''name'') (\<lambda>n.
     andthen (subscript a ''type'') (\<lambda>t.
     andthen (subscript a ''size'') (\<lambda>s.
       Inr \<lparr>am_id = i, am_name = n, am_type = t, am_size = s\<rparr>))))"

definition detail_of :: "json \<Rightarrow> error + EmailDetail" where
  "detail_of resp =
     andthen (andthen (get_default resp ''attachments'' (JArr [])) iterate) (\<lambda>as.
     andthen (comprehension attachment_of as) (\<lambda>attachments.
     andthen (subscript resp ''id'') (\<lambda>i.
     andthen (subscript resp ''from'') (\<lambda>f.
     andthen (subscript resp ''to'') (\<lambda>t.
     andthen (subscript resp ''subject'') (\<lambda>s.
     andthen (subscript resp ''html'') (\<lambda>h.
     andthen (subscript resp ''text'') (\<lambda>x.
     andthen (andthen (subscript resp ''receivedAt'') received_at_of) (\<lambda>r.
     andthen (subscript resp ''hasAttachments'') (\<lambda>ha.
       Inr \<lparr>ed_id = i, ed_sender = f, ed_to = t, ed_subject = s, ed_html = h, ed_text = x,
            ed_received_at = r, ed_has_attachments = ha, ed_attachments = attachments\<rparr>))))))))))"

definition get_email ::
  "runtime \<Rightarrow> VanishClient \<Rightarrow> string \<Rightarrow> world \<Rightarrow> (error + EmailDetail) \<times> world" where
  "get_email rt c email_id w =
     (case request rt c ''GET'' (''/email/'' @ email_id) None None False w of
        (r, w') \<Rightarrow> (andthen (andthen r as_json) detail_of, w'))"

definition get_attachment ::
  "runtime \<Rightarrow> VanishClient \<Rightarrow> string \<Rightarrow> string \<Rightarrow> world \<Rightarrow>
   (error + string \<times> (string \<rightharpoonup> string)) \<times> world" where
  "get_attachment rt c email_id attachment_id w =
     (case request rt c ''GET'' (''/email/'' @ email_id @ ''/attachments/'' @ attachment_id)
             None None True w of
        (r, w') \<Rightarrow>
          (andthen r (\<lambda>rep. case rep of
                               Raw content headers \<Rightarrow> Inr (content, map_of headers)
                             | Json j \<Rightarrow> Inl TypeError), w'))"

definition delete_email ::
  "runtime \<Rightarrow> VanishClient \<Rightarrow> string \<Rightarrow> world \<Rightarrow> (error + json) \<times> world" where
  "delete_email rt c email_id w =
     (case request rt c ''DELETE'' (''/email/'' @ email_id) None None False w of
        (r, w') \<Rightarrow> (andthen (andthen r as_json) (\<lambda>resp. get_default resp ''success'' (JBool False)), w'))"

definition delete_mailbox ::
  "runtime \<Rightarrow> VanishClient \<Rightarrow> string \<Rightarrow> world \<Rightarrow> (error + json) \<times> world" where
  "delete_mailbox rt c address w =
     (let encoded_address = quote address '''' in
      case request rt c ''DELETE'' (''/mailbox/'' @ encoded_address) None None False w of
        (r, w') \<Rightarrow> (andthen (andthen r as_json) (\<lambda>resp. get_default resp ''deleted'' (JInt 0)), w'))"

text \<open>
  The loop of \<^verbatim>\<open>poll_for_emails\<close>. It need not end (requests that take no time and an
  interval of zero), so a run that never returns has the value \<open>None\<close>.
\<close>

partial_function (option) poll_loop ::
  "runtime \<Rightarrow> VanishClient \<Rightarrow> string \<Rightarrow> real \<Rightarrow> real \<Rightarrow> int \<Rightarrow> real \<Rightarrow> world \<Rightarrow>
   ((error + EmailSummary option) \<times> world) option" where
  "poll_loop rt c address tmo interval initial_count start w =
     (if now w - start < tmo then
        (case list_emails rt c address 1 None w of
           (r, w') \<Rightarrow>
             (case r of
                Inl e \<Rightarrow> Some (Inl e, w')
              | Inr result \<Rightarrow>
                  (case py_gt (total result) initial_count of
                     Inl e \<Rightarrow> Some (Inl e, w')
                   | Inr b \<Rightarrow>
                       if b \<and> data result \<noteq> [] then Some (Inr (Some (hd (data result))), w')
                       else (case sleep interval w' of
                               Inl e \<Rightarrow> Some (Inl e, w')
                             | Inr w'' \<Rightarrow>
                                 poll_loop rt c address tmo interval initial_count start w''))))
      else Some (Inr None, w))"

definition poll_for_emails ::
  "runtime \<Rightarrow> VanishClient \<Rightarrow> string \<Rightarrow> real \<Rightarrow> real \<Rightarrow> int \<Rightarrow> world \<Rightarrow>
   ((error + EmailSummary option) \<times> world) option" where
  "poll_for_emails rt c address tmo interval initial_count w =
     (let start = now w in poll_loop rt c address tmo interval initial_count start w)"

section \<open>Observing a poll\<close>

text \<open>
  Every check of a poll sends the same request. \<open>lag\<close> is how long the \<open>n\<close>-th request
  sent takes when it is that request, and \<open>check\<close> is what \<^verbatim>\<open>list_emails\<close> returns for it.
\<close>

definition polled :: "runtime \<Rightarrow> VanishClient \<Rightarrow> string \<Rightarrow> Request" where
  "polled rt c address =
     build_request rt c ''GET'' (''/mailbox/'' @ quote address '''')
       (Some [(''limit'', PInt 1), (''cursor'', PNone)]) None"

definition lag :: "runtime \<Rightarrow> VanishClient \<Rightarrow> string \<Rightarrow> nat \<Rightarrow> real" where
  "lag rt c address n = fst (urlopen rt n (polled rt c address) (timeout c))"

definition check :: "runtime \<Rightarrow> VanishClient \<Rightarrow> string \<Rightarrow> nat \<Rightarrow> error + PaginatedEmailList" where
  "check rt c address n =
     andthen (andthen (receive rt False (snd (urlopen rt n (polled rt c address) (timeout c))))
                as_json) list_of"

text \<open>
  The "no email yet" condition: the listing came back, its total compares with the initial
  count, and the test \<^verbatim>\<open>result.total > initial_count and result.data\<close> is false.
\<close>

definition no_new_mail :: "int \<Rightarrow> error + PaginatedEmailList \<Rightarrow> bool" where
  "no_new_mail initial_count r =
     (case r of
        Inl e \<Rightarrow> False
      | Inr result \<Rightarrow>
          (case py_gt (total result) initial_count of
             Inl e \<Rightarrow> False
           | Inr b \<Rightarrow> b = False \<or> data result = []))"

text \<open>
  The time that \<open>k\<close> checks without a new email take, each followed by its sleep, when the
  first of them is request number \<open>n\<close>; and the requests and sleeps they leave in the trace.
\<close>

fun elapsed :: "runtime \<Rightarrow> VanishClient \<Rightarrow> string \<Rightarrow> real \<Rightarrow> nat \<Rightarrow> nat \<Rightarrow> real" where
  "elapsed rt c address interval n 0 = 0"
| "elapsed rt c address interval n (Suc k) =
     elapsed rt c address interval n k + lag rt c address (n + k) + interval"

definition rounds :: "Request \<Rightarrow> real \<Rightarrow> nat \<Rightarrow> event list" where
  "rounds req interval k = concat (replicate k [Requested req, Slept interval])"

definition after_rounds ::
  "runtime \<Rightarrow> VanishClient \<Rightarrow> string \<Rightarrow> real \<Rightarrow> nat \<Rightarrow> world \<Rightarrow> world" where
  "after_rounds rt c address interval k w =
     w\<lparr>now := now w + elapsed rt c address interval (sent w) k,
       sent := sent w + k,
       trace := trace w @ rounds (polled rt c address) interval k\<rparr>"

section \<open>A scripted server\<close>

text \<open>
  A runtime whose \<open>n\<close>-th request ends as a script says, whatever the request, and whose
  JSON decoder knows the bodies of a table; a client; and the world before any request.
\<close>

definition scripted :: "(nat \<Rightarrow> real \<times> outcome) \<Rightarrow> (string \<times> json) list \<Rightarrow> runtime" where
  "scripted script table =
     \<lparr>urlopen = (\<lambda>n req t. script n),
      json_loads = (\<lambda>body. case map_of table body of None \<Rightarrow> Malformed | Some j \<Rightarrow> Parsed j),
      json_dumps = (\<lambda>j. [])\<rparr>"

definition client0 :: VanishClient where
  "client0 = create_client ''https://api.vanish.host/'' None"

definition w0 :: world where
  "w0 = \<lparr>now = 0, sent = 0, trace = []\<rparr>"

definition mail1 :: json where
  "mail1 = JObj [(''id'', JStr ''e1''), (''from'', JStr ''alice@example.com''),
                 (''subject'', JStr ''Hi''), (''textPreview'', JStr ''Hello''),
                 (''receivedAt'', JStr ''2024-01-15T10:30:00Z''),
                 (''hasAttachments'', JBool False)]"

text \<open>Response bodies and what they decode to.\<close>

definition page0 :: string where
  \<open>page0 = ''{"data":[],"total":0}''\<close>

definition page1 :: string where
  \<open>page1 = ''{"data":[{"id":"e1","from":"alice@example.com","subject":"Hi","textPreview":"Hello","receivedAt":"2024-01-15T10:30:00Z","hasAttachments":false}],"total":1}''\<close>

definition detail1 :: string where
  \<open>detail1 = ''{"id":"e1","from":"alice@example.com","to":["a+b@example.com"],"subject":"Hi","html":"<p>Hello</p>","text":"Hello","receivedAt":"2024-01-15T10:30:00Z","hasAttachments":false}''\<close>

definition mail1_detail :: json where
  "mail1_detail = JObj [(''id'', JStr ''e1''), (''from'', JStr ''alice@example.com''),
                        (''to'', JArr [JStr ''a+b@example.com'']), (''subject'', JStr ''Hi''),
                        (''html'', JStr ''<p>Hello</p>''), (''text'', JStr ''Hello''),
                        (''receivedAt'', JStr ''2024-01-15T10:30:00Z''),
                        (''hasAttachments'', JBool False)]"

definition pages :: "(string \<times> json) list" where
  \<open>pages =
     [(page0, JObj [(''data'', JArr []), (''total'', JInt 0)]),
      (page1, JObj [(''data'', JArr [mail1]), (''total'', JInt 1)]),
      (detail1, mail1_detail),
      (''{}'', JObj []),
      (''[]'', JArr []),
      (''{"error":"mailbox not found"}'', JObj [(''error'', JStr ''mailbox not found'')])]\<close>

definition summary1 :: EmailSummary where
  "summary1 =
     \<lparr>es_id = JStr ''e1'', es_sender = JStr ''alice@example.com'', es_subject = JStr ''Hi'',
      es_text_preview = JStr ''Hello'',
      es_received_at = \<lparr>year = 2024, month = 1, day = 15, hour = 10, minute = 30, second = 0,
                         microsecond = 0, tzinfo = Some 0\<rparr>,
      es_has_attachments = JBool False\<rparr>"

text \<open>
  Servers: one whose mailbox stays empty and answers at once; one that takes a second per
  request and has a message from the third request on; one that answers once and then times
  out; one that refuses the connection; one that answers every request with a given outcome.
\<close>

definition rt_quiet :: runtime where
  "rt_quiet = scripted (\<lambda>n. (0, Response page0 [])) pages"

definition rt_mail :: runtime where
  "rt_mail = scripted (\<lambda>n. (1, Response (if n < 2 then page0 else page1) [])) pages"

definition rt_down :: runtime where
  "rt_down = scripted (\<lambda>n. (1, if n < 1 then Response page0 [] else URLError ''timed out'')) pages"

definition rt_refused :: runtime where
  "rt_refused = scripted (\<lambda>n. (0, URLError ''[Errno 111] Connection refused'')) pages"

definition rt_always :: "outcome \<Rightarrow> runtime" where
  "rt_always oc = scripted (\<lambda>n. (0, oc)) pages"

section \<open>Basic facts\<close>

lemma andthen_Inl: "andthen (Inl e) f = Inl e"
  by (simp add: andthen_def)

lemma andthen_Inr: "andthen (Inr v) f = f v"
  by (simp add: andthen_def)

text \<open>One request: what comes back and what it does to the world.\<close>

lemma request_eq:
  "request rt c m p ps b raw w =
     (receive rt raw (snd (urlopen rt (sent w) (build_request rt c m p ps b) (timeout c))),
      w\<lparr>now := now w + fst (urlopen rt (sent w) (build_request rt c m p ps b) (timeout c)),
        sent := Suc (sent w),
        trace := trace w @ [Requested (build_request rt c m p ps b)]\<rparr>)"
  by (simp add: request_def send_def split: prod.split)

lemma receive_URLError:
  "receive rt raw (URLError reason) = Inl (VanishError (JStr (''Connection error: '' @ reason)) None)"
  by (simp add: receive_def)

lemma list_emails_poll:
  "list_emails rt c a 1 None w =
     (check rt c a (sent w),
      w\<lparr>now := now w + lag rt c a (sent w), sent := Suc (sent w),
        trace := trace w @ [Requested (polled rt c a)]\<rparr>)"
  by (simp add: list_emails_def request_eq check_def lag_def polled_def Let_def)

text \<open>The rounds of a poll that end in a sleep.\<close>

lemma after_rounds_0: "after_rounds rt c a iv 0 w = w"
  by (simp add: after_rounds_def rounds_def)

lemma rounds_Suc: "rounds req iv (Suc k) = rounds req iv k @ [Requested req, Slept iv]"
  unfolding rounds_def by (induction k) simp_all

lemma after_rounds_Suc:
  "after_rounds rt c a iv (Suc k) w =
     (after_rounds rt c a iv k w)
       \<lparr>now := now (after_rounds rt c a iv k w) + lag rt c a (sent w + k) + iv,
        sent := Suc (sent w + k),
        trace := trace (after_rounds rt c a iv k w) @ [Requested (polled rt c a), Slept iv]\<rparr>"
  by (simp add: after_rounds_def rounds_Suc)

lemma after_rounds_simps:
  "now (after_rounds rt c a iv k w) = now w + elapsed rt c a iv (sent w) k"
  "sent (after_rounds rt c a iv k w) = sent w + k"
  "trace (after_rounds rt c a iv k w) = trace w @ rounds (polled rt c a) iv k"
  by (simp_all add: after_rounds_def)

lemma rounds_sleeps: "Slept d \<in> set (rounds req iv k) \<Longrightarrow> d = iv"
  unfolding rounds_def by (induction k) auto

lemma poll_loop_sleeps:
  assumes "now w - start < tmo" and "no_new_mail ic (check rt c a (sent w))" and "0 \<le> iv"
  shows "poll_loop rt c a tmo iv ic start w =
         poll_loop rt c a tmo iv ic start
           (w\<lparr>now := now w + lag rt c a (sent w) + iv, sent := Suc (sent w),
              trace := trace w @ [Requested (polled rt c a), Slept iv]\<rparr>)"
  using assms
  by (subst poll_loop.simps, cases w)
     (auto simp: list_emails_poll no_new_mail_def sleep_def split: sum.splits)

lemma poll_loop_unroll:
  assumes "\<forall>i<k. no_new_mail ic (check rt c a (sent w + i))"
    and "0 \<le> iv"
    and "\<forall>i<k. now w + elapsed rt c a iv (sent w) i - start < tmo"
  shows "poll_loop rt c a tmo iv ic start w =
         poll_loop rt c a tmo iv ic start (after_rounds rt c a iv k w)"
  using assms
proof (induction k)
  case 0
  show ?case by (simp add: after_rounds_0)
next
  case (Suc k)
  let ?wk = "after_rounds rt c a iv k w"
  have "poll_loop rt c a tmo iv ic start w = poll_loop rt c a tmo iv ic start ?wk"
    using Suc by simp
  also have "\<dots> = poll_loop rt c a tmo iv ic start
           (?wk\<lparr>now := now ?wk + lag rt c a (sent ?wk) + iv, sent := Suc (sent ?wk),
              trace := trace ?wk @ [Requested (polled rt c a), Slept iv]\<rparr>)"
  proof (rule poll_loop_sleeps)
    show "now ?wk - start < tmo" using Suc.prems(3) by (simp add: after_rounds_def)
    show "no_new_mail ic (check rt c a (sent ?wk))" using Suc.prems(1) by (simp add: after_rounds_def)
    show "0 \<le> iv" by fact
  qed
  also have "\<dots> = poll_loop rt c a tmo iv ic start (after_rounds rt c a iv (Suc k) w)"
    by (simp add: after_rounds_Suc) (simp add: after_rounds_def)
  finally show ?case .
qed

text \<open>The ways a poll ends.\<close>

lemma poll_loop_found:
  assumes "now w - start < tmo" and "check rt c a (sent w) = Inr result"
    and "py_gt (total result) ic = Inr True" and "data result \<noteq> []"
  shows "poll_loop rt c a tmo iv ic start w =
         Some (Inr (Some (hd (data result))),
               \<lparr>now = now w + lag rt c a (sent w), sent = Suc (sent w),
                trace = trace w @ [Requested (polled rt c a)]\<rparr>)"
  using assms by (subst poll_loop.simps, cases w) (simp add: list_emails_poll)

lemma poll_loop_raises:
  assumes "now w - start < tmo" and "check rt c a (sent w) = Inl e"
  shows "poll_loop rt c a tmo iv ic start w =
         Some (Inl e,
               \<lparr>now = now w + lag rt c a (sent w), sent = Suc (sent w),
                trace = trace w @ [Requested (polled rt c a)]\<rparr>)"
  using assms by (subst poll_loop.simps, cases w) (simp add: list_emails_poll)

lemma poll_loop_deadline:
  assumes "tmo \<le> now w - start"
  shows "poll_loop rt c a tmo iv ic start w = Some (Inr None, w)"
  using assms by (subst poll_loop.simps) simp

lemma poll_loop_stops:
  assumes "now w - start < tmo" and "\<not> no_new_mail ic (check rt c a (sent w))"
  shows "\<exists>res. poll_loop rt c a tmo iv ic start w =
         Some (res,
               \<lparr>now = now w + lag rt c a (sent w), sent = Suc (sent w),
                trace = trace w @ [Requested (polled rt c a)]\<rparr>)"
  using assms
  by (subst poll_loop.simps, cases w)
     (auto simp: list_emails_poll no_new_mail_def split: sum.splits)

lemma poll_first_raises:
  assumes "0 < tmo" and "fst (list_emails rt c a 1 None w) = Inl e"
  shows "map_option fst (poll_for_emails rt c a tmo iv ic w) = Some (Inl e)"
proof -
  obtain w' where "list_emails rt c a 1 None w = (Inl e, w')"
    using assms(2) by (metis prod.collapse)
  then show ?thesis
    using assms(1) unfolding poll_for_emails_def Let_def
    by (subst poll_loop.simps) simp
qed

text \<open>Time only moves forward when no request takes a negative time.\<close>

lemma elapsed_mono:
  assumes "\<forall>n. 0 \<le> lag rt c a n" and "0 \<le> iv" and "i \<le> k"
  shows "elapsed rt c a iv n i \<le> elapsed rt c a iv n k"
  using assms(3)
proof (induction k)
  case 0
  then show ?case by simp
next
  case (Suc k)
  show ?case
  proof (cases "i = Suc k")
    case True
    then show ?thesis by simp
  next
    case False
    with Suc have "elapsed rt c a iv n i \<le> elapsed rt c a iv n k" by simp
    moreover have "0 \<le> lag rt c a (n + k)" using assms(1) by simp
    ultimately show ?thesis using assms(2) by simp
  qed
qed

lemma elapsed_grows:
  assumes "\<forall>n. 0 \<le> lag rt c a n"
  shows "real k * iv \<le> elapsed rt c a iv n k"
proof (induction k)
  case 0
  show ?case by simp
next
  case (Suc k)
  have "0 \<le> lag rt c a (n + k)" using assms by simp
  with Suc show ?case by (simp add: algebra_simps)
qed

lemma elapsed_reaches:
  assumes "\<forall>n. 0 \<le> lag rt c a n" and "0 < iv"
  shows "\<exists>k. tmo \<le> elapsed rt c a iv n k"
proof -
  obtain k :: nat where "tmo < real k * iv"
    using reals_Archimedean3[OF assms(2)] by blast
  with elapsed_grows[OF assms(1), of k iv n] have "tmo \<le> elapsed rt c a iv n k" by simp
  then show ?thesis ..
qed

lemma polled_url:
  "rq_url (polled rt c a) = base_url c @ ''/mailbox/'' @ quote a [] @ ''?limit=1''"
  by (simp add: polled_def build_request_def build_url_def urlencode_def join_def
      quote_plus_def quote_def quoter_def ALWAYS_SAFE_def str_int_def digit_char_def)

text \<open>The scripted servers, evaluated.\<close>

lemmas fromisoformat_eval =
  fromisoformat_def find_isoformat_datetime_separator_def parse_isoformat_date_def
  parse_isoformat_time_def parse_hh_mm_ss_ff_def parse_ff_def parse_digits_def is_digit_def
  component_def tzinfo_from_isoformat_results_def make_datetime_def days_in_month_def
  days_in_month_table_def is_leap_def separator_width_def andthen_def Let_def numeral_3_eq_3

lemma received_at_example:
  "received_at_of (JStr ''2024-01-15T10:30:00Z'') =
     Inr \<lparr>year = 2024, month = 1, day = 15, hour = 10, minute = 30, second = 0,
          microsecond = 0, tzinfo = Some 0\<rparr>"
  by (simp add: received_at_of_def replace_def fromisoformat_eval)

lemma summary_of_mail1: "summary_of mail1 = Inr summary1"
  by (simp add: summary_of_def mail1_def andthen_def received_at_example summary1_def)

lemma page_neq: "page0 \<noteq> page1" by (simp add: page0_def page1_def)

lemma no_new_mail_quiet: "no_new_mail 0 (Inr \<lparr>data = [], next_cursor = JNull, total = JInt 0\<rparr>)"
  by (simp add: no_new_mail_def)

lemma check_mail_early: "n < 2 \<Longrightarrow> check rt_mail client0 a n = Inr \<lparr>data = [], next_cursor = JNull, total = JInt 0\<rparr>"
  by (simp add: check_def rt_mail_def scripted_def receive_def pages_def as_json_def list_of_def andthen_def)

lemma check_mail_third: "check rt_mail client0 a 2 = Inr \<lparr>data = [summary1], next_cursor = JNull, total = JInt 1\<rparr>"
  by (simp add: check_def rt_mail_def scripted_def receive_def pages_def as_json_def list_of_def andthen_def page_neq page_neq[symmetric] summary_of_mail1)

lemma lag_mail: "lag rt_mail client0 a n = 1"
  by (simp add: lag_def rt_mail_def scripted_def)

lemma elapsed_mail: "elapsed rt_mail client0 a 5 0 2 = 12"
  by (simp add: eval_nat_numeral lag_mail)

lemma check_quiet: "check rt_quiet client0 a n = Inr \<lparr>data = [], next_cursor = JNull, total = JInt 0\<rparr>"
  by (simp add: check_def rt_quiet_def scripted_def receive_def pages_def as_json_def list_of_def andthen_def)

lemma lag_quiet: "lag rt_quiet client0 a n = 0"
  by (simp add: lag_def rt_quiet_def scripted_def)

lemma check_down0: "check rt_down client0 a 0 = Inr \<lparr>data = [], next_cursor = JNull, total = JInt 0\<rparr>"
  by (simp add: check_def rt_down_def scripted_def receive_def pages_def as_json_def list_of_def andthen_def)

lemma check_down1: "check rt_down client0 a (Suc 0) = Inl (VanishError (JStr ''Connection error: timed out'') None)"
  by (simp add: check_def rt_down_def scripted_def receive_def andthen_def)

lemma lag_down: "lag rt_down client0 a n = 1"
  by (simp add: lag_def rt_down_def scripted_def)

text \<open>Strings that percent-encoding leaves alone.\<close>

lemma str_nat_digits: "set (str_nat n) \<subseteq> set ''0123456789''"
proof (induction n rule: str_nat.induct)
  case (1 n)
  have d: "\<And>m. m < 10 \<Longrightarrow> digit_char m \<in> set ''0123456789''"
  proof -
    fix m :: nat assume "m < 10"
    then have "m \<in> {0, 1, 2, 3, 4, 5, 6, 7, 8, 9}" by auto
    then show "digit_char m \<in> set ''0123456789''"
      by (auto simp: digit_char_def)
  qed
  show ?case
  proof (cases "n < 10")
    case True
    then show ?thesis using d[of n] by (subst str_nat.simps) simp
  next
    case False
    then have "set (str_nat (n div 10)) \<subseteq> set ''0123456789''" using 1 by simp
    moreover have "digit_char (n mod 10) \<in> set ''0123456789''" by (rule d) simp
    ultimately show ?thesis using False by (subst str_nat.simps) simp
  qed
qed

lemma str_int_safe: "set (str_int i) \<subseteq> ALWAYS_SAFE"
proof -
  have "set ''0123456789'' \<subseteq> ALWAYS_SAFE" by (simp add: ALWAYS_SAFE_def)
  with str_nat_digits have "\<And>n. set (str_nat n) \<subseteq> ALWAYS_SAFE" by blast
  moreover have "CHR ''-'' \<in> ALWAYS_SAFE" by (simp add: ALWAYS_SAFE_def)
  ultimately show ?thesis by (simp add: str_int_def)
qed

lemma quote_safe: "set s \<subseteq> ALWAYS_SAFE \<Longrightarrow> quote s safe = s"
  by (induction s) (simp_all add: quote_def quoter_def)

lemma space_unsafe: "CHR '' '' \<notin> ALWAYS_SAFE"
  by (simp add: ALWAYS_SAFE_def)

lemma quote_plus_safe: "set s \<subseteq> ALWAYS_SAFE \<Longrightarrow> quote_plus s [] = s"
  using space_unsafe by (auto simp: quote_plus_def quote_safe)

lemma limit_query:
  "urlencode [(''limit'', PInt limit)] = ''limit='' @ str_int limit"
proof -
  have "set ''limit'' \<subseteq> ALWAYS_SAFE" by (simp add: ALWAYS_SAFE_def)
  then have "quote_plus ''limit'' [] = ''limit''" by (rule quote_plus_safe)
  then show ?thesis
    by (simp add: urlencode_def join_def quote_plus_safe[OF str_int_safe])
qed

lemma build_headers_client0: "build_headers client0 = [(''Content-Type'', ''application/json'')]"
  by (simp add: build_headers_def client0_def create_client_def init_def)

lemma base_url_client0: "base_url client0 = ''https://api.vanish.host''"
  by (simp add: client0_def create_client_def init_def rstrip_slash_def)

lemma quote_example: "quote ''a+b@example.com'' [] = ''a%2Bb%40example.com''"
  by (simp add: quote_def quoter_def ALWAYS_SAFE_def percent_def hex_char_def)

lemma detail1_decoded: "json_loads (rt_always oc) detail1 = Parsed mail1_detail"
  by (simp add: rt_always_def scripted_def pages_def page0_def page1_def detail1_def)

lemma empty_object_decoded: \<open>json_loads (rt_always oc) ''{}'' = Parsed (JObj [])\<close>
  by (simp add: rt_always_def scripted_def pages_def page0_def page1_def detail1_def)

lemma rt_always_outcome: "snd (urlopen (rt_always oc) n req t) = oc"
  by (simp add: rt_always_def scripted_def)

text \<open>Decoding undoes encoding, byte by byte.\<close>

lemma hex_table:
  "list_all (\<lambda>n. hex_val (hex_char n) = Some n \<and> hex_char n \<noteq> CHR ''/'') [0..<16]"
  by (simp add: upt_conv_Cons hex_val_def hex_char_def)

lemma hex_val_hex_char: "n < 16 \<Longrightarrow> hex_val (hex_char n) = Some n"
  using hex_table by (simp add: list_all_iff)

lemma hex_char_not_slash: "n < 16 \<Longrightarrow> hex_char n \<noteq> CHR ''/''"
  using hex_table by (simp add: list_all_iff)

lemma of_char_div_16: "(of_char c :: nat) div 16 < 16"
proof -
  have "\<And>x :: nat. x < 256 \<Longrightarrow> x div 16 < 16" by presburger
  then show ?thesis using nat_of_char_less_256 by blast
qed

lemma unquote_percent: "unquote (percent c @ rest) = c # unquote rest"
proof -
  have "char_of (16 * (of_char c div 16) + (of_char c mod 16 :: nat)) = c"
    by simp
  then show ?thesis
    by (simp add: percent_def hex_val_hex_char of_char_div_16)
qed

lemma unquote_plain: "c \<noteq> CHR ''%'' \<Longrightarrow> unquote (c # rest) = c # unquote rest"
proof (cases rest)
  case Nil
  then show ?thesis by simp
next
  case (Cons h tl)
  assume "c \<noteq> CHR ''%''"
  then show ?thesis using Cons by (cases tl) simp_all
qed

lemma percent_unsafe: "CHR ''%'' \<notin> ALWAYS_SAFE"
  by (simp add: ALWAYS_SAFE_def)

lemma slash_unsafe: "CHR ''/'' \<notin> ALWAYS_SAFE"
  by (simp add: ALWAYS_SAFE_def)

lemma unquote_quote: "unquote (quote s []) = s"
proof (induction s)
  case Nil
  show ?case by (simp add: quote_def)
next
  case (Cons c s)
  have q: "quote (c # s) [] = quoter [] c @ quote s []" by (simp add: quote_def)
  show ?case
  proof (cases "c \<in> ALWAYS_SAFE")
    case True
    then have "c \<noteq> CHR ''%''" using percent_unsafe by blast
    then show ?thesis using True Cons by (simp add: q quoter_def unquote_plain)
  next
    case False
    then show ?thesis using Cons by (simp add: q quoter_def unquote_percent)
  qed
qed

lemma quote_no_slash: "CHR ''/'' \<notin> set (quote s [])"
proof (induction s)
  case Nil
  show ?case by (simp add: quote_def)
next
  case (Cons c s)
  have q: "quote (c # s) [] = quoter [] c @ quote s []" by (simp add: quote_def)
  have "CHR ''/'' \<notin> set (quoter [] c)"
    using slash_unsafe hex_char_not_slash[OF of_char_div_16, of c]
      hex_char_not_slash[of "of_char c mod 16"]
    by (auto simp: quoter_def percent_def)
  with Cons show ?case by (simp add: q)
qed

text \<open>A timestamp without an offset, read again with the offset \<^verbatim>\<open>+00:00\<close> appended.\<close>

lemma replace_absent: "old \<notin> set s \<Longrightarrow> replace s old new = s"
  by (induction s) (auto simp: replace_def)

lemma replace_Z_suffix:
  "CHR ''Z'' \<notin> set d \<Longrightarrow> replace (d @ ''Z'') (CHR ''Z'') ''+00:00'' = d @ ''+00:00''"
  using replace_absent[of "CHR ''Z''" d "''+00:00''"] by (simp add: replace_def)

lemma make_datetime_tzinfo: "make_datetime dd (t, tz) = Inr dt \<Longrightarrow> tzinfo dt = tz"
  by (auto simp: make_datetime_def split: prod.splits if_splits)

lemma make_datetime_aware:
  "make_datetime dd (t, tz) = Inr dt \<Longrightarrow> make_datetime dd (t, tz') = Inr (dt\<lparr>tzinfo := tz'\<rparr>)"
  by (auto simp: make_datetime_def split: prod.splits if_splits)

lemma takeWhile_stop: "\<not> P c \<Longrightarrow> takeWhile P (s @ c # rest) = takeWhile P s"
  by (induction s) auto

lemma takeWhile_all: "length (takeWhile P s) = length s \<Longrightarrow> takeWhile P s = s"
  by (induction s) (auto split: if_splits)

lemma find_separator_utc:
  assumes "find_isoformat_datetime_separator d = Some p" and "p < length d"
    and "7 \<le> length d"
  shows "find_isoformat_datetime_separator (d @ ''+00:00'') = Some p"
proof -
  have tw: "takeWhile is_digit (drop 7 d @ ''+00:00'') = takeWhile is_digit (drop 7 d)"
    by (rule takeWhile_stop) (simp add: is_digit_def)
  show ?thesis
    using assms
    by (auto simp: find_isoformat_datetime_separator_def Let_def nth_append tw
             split: if_splits)
qed

lemma utc_offset_zero: "parse_hh_mm_ss_ff ''00:00'' = Inr ((0, 0, 0, 0), False)"
  by (simp add: parse_hh_mm_ss_ff_def parse_digits_def is_digit_def component_def
      numeral_3_eq_3)

lemma parse_isoformat_time_empty: "parse_isoformat_time [] = Inl ValueError"
  by (simp add: parse_isoformat_time_def parse_hh_mm_ss_ff_def parse_digits_def andthen_def
      numeral_3_eq_3)

lemma parse_isoformat_time_naive:
  assumes "parse_isoformat_time s = Inr (t, None)"
  shows "takeWhile (\<lambda>c. c \<notin> set ''Z+-'') s = s
       \<and> (\<exists>unread. parse_hh_mm_ss_ff s = Inr (t, unread))"
proof -
  let ?n = "length (takeWhile (\<lambda>c. c \<notin> set ''Z+-'') s)"
  from assms have n: "?n = length s"
    by (auto simp: parse_isoformat_time_def andthen_def Let_def
             split: sum.splits prod.splits if_splits)
  then have w: "takeWhile (\<lambda>c. c \<notin> set ''Z+-'') s = s" by (rule takeWhile_all)
  from assms n have "\<exists>unread. parse_hh_mm_ss_ff s = Inr (t, unread)"
    by (auto simp: parse_isoformat_time_def andthen_def Let_def
             split: sum.splits prod.splits if_splits)
  with w show ?thesis by simp
qed

lemma parse_isoformat_time_utc:
  assumes "parse_isoformat_time s = Inr (t, None)"
  shows "parse_isoformat_time (s @ ''+00:00'') = Inr (t, Some (0, 0))"
proof -
  from parse_isoformat_time_naive[OF assms] obtain unread
    where w: "takeWhile (\<lambda>c. c \<notin> set ''Z+-'') s = s"
      and p: "parse_hh_mm_ss_ff s = Inr (t, unread)" by blast
  have "takeWhile (\<lambda>c. c \<notin> set ''Z+-'') (s @ ''+00:00'') = takeWhile (\<lambda>c. c \<notin> set ''Z+-'') s"
    by (rule takeWhile_stop) simp
  with w have w': "takeWhile (\<lambda>c. c \<notin> set ''Z+-'') (s @ ''+00:00'') = s" by simp
  show ?thesis
    unfolding parse_isoformat_time_def w'
    by (simp add: p utc_offset_zero andthen_def nth_append)
qed

lemma tzinfo_None: "tzinfo_from_isoformat_results tz = Inr None \<Longrightarrow> tz = None"
  by (auto simp: tzinfo_from_isoformat_results_def Let_def split: option.splits if_splits)

lemma fromisoformat_utc:
  assumes "fromisoformat d = Inr dt" and "tzinfo dt = None"
    and "find_isoformat_datetime_separator d = Some p" and "p < length d"
  shows "fromisoformat (d @ ''+00:00'') = Inr (dt\<lparr>tzinfo := Some 0\<rparr>)"
proof -
  let ?k = "p + separator_width (d ! p)"
  from assms(1) have len: "7 \<le> length d"
    by (auto simp: fromisoformat_def split: if_splits)
  from assms(1,3) len obtain dd where dd: "parse_isoformat_date (take p d) = Inr dd"
    by (auto simp: fromisoformat_def andthen_def split: sum.splits)
  with assms(1,3,4) len obtain t tz where
    t: "parse_isoformat_time (drop ?k d) = Inr (t, tz)"
    and r: "andthen (tzinfo_from_isoformat_results tz) (\<lambda>tzinfo. make_datetime dd (t, tzinfo)) = Inr dt"
    by (auto simp: fromisoformat_def andthen_def split: sum.splits prod.splits)
  from r obtain tzi where z: "tzinfo_from_isoformat_results tz = Inr tzi"
    and m: "make_datetime dd (t, tzi) = Inr dt"
    by (auto simp: andthen_def split: sum.splits)
  from make_datetime_tzinfo[OF m] assms(2) have "tzi = None" by simp
  with z have "tz = None" using tzinfo_None by simp
  with t have t0: "parse_isoformat_time (drop ?k d) = Inr (t, None)" by simp
  have "drop ?k d \<noteq> []" using t parse_isoformat_time_empty by auto
  then have k: "?k < length d" by simp
  have "parse_isoformat_time (drop ?k d @ ''+00:00'') = Inr (t, Some (0, 0))"
    by (rule parse_isoformat_time_utc[OF t0])
  moreover have "make_datetime dd (t, Some 0) = Inr (dt\<lparr>tzinfo := Some 0\<rparr>)"
    by (rule make_datetime_aware[OF m])
  moreover from len have "d \<noteq> []" by auto
  ultimately show ?thesis
    using find_separator_utc[OF assms(3,4) len] assms(4) len dd k
    by (simp add: fromisoformat_def andthen_def nth_append tzinfo_from_isoformat_results_def)
qed

text \<open>A plus sign in its input is never read as part of a time, so the inserted offset cannot be taken for one.\<close>

lemma parse_digits_Some:
  assumes "parse_digits k p = Some v"
  shows "k \<le> length p \<and> (\<forall>c \<in> set (take k p). is_digit c)"
  using assms by (auto simp: parse_digits_def list_all_iff split: if_splits)

lemma plus_after_digits:
  assumes "parse_digits k p = Some v" and "CHR ''+'' \<in> set p"
  shows "CHR ''+'' \<in> set (drop k p)"
proof -
  have "\<not> is_digit (CHR ''+'')" by (simp add: is_digit_def)
  with parse_digits_Some[OF assms(1)] have "CHR ''+'' \<notin> set (take k p)" by blast
  moreover have "set p = set (take k p) \<union> set (drop k p)"
    by (metis append_take_drop_id set_append)
  ultimately show ?thesis using assms(2) by simp
qed

lemma parse_ff_unread:
  assumes "CHR ''+'' \<in> set p" and "parse_ff vals p = Inr (t, unread)"
  shows unread
proof -
  let ?k = "min 6 (length p)"
  from assms(2) obtain us where us: "parse_digits ?k p = Some us"
    and m: "unread = (dropWhile is_digit (drop ?k p) \<noteq> [])"
    by (auto simp: parse_ff_def Let_def split: option.splits)
  have "\<not> is_digit (CHR ''+'')" by (simp add: is_digit_def)
  with plus_after_digits[OF us assms(1)] have "dropWhile is_digit (drop ?k p) \<noteq> []"
    by (auto simp: dropWhile_eq_Nil_conv)
  with m show ?thesis by simp
qed

lemma plus_after_char:
  assumes "CHR ''+'' \<in> set (drop 2 p)" and "take 1 (drop 2 p) = [c]" and "c \<noteq> CHR ''+''"
  shows "CHR ''+'' \<in> set (drop 3 p)"
proof -
  from assms(2) obtain rest where r: "drop 2 p = c # rest" by (cases "drop 2 p") auto
  have "drop (1 + 2) p = drop 1 (drop 2 p)" by (rule drop_drop[symmetric])
  with r have "drop 3 p = rest" by (simp add: numeral_3_eq_3)
  with r assms(1,3) show ?thesis by auto
qed

lemma parse_hh_mm_ss_unread:
  "CHR ''+'' \<in> set p \<Longrightarrow> parse_hh_mm_ss n hs vals p = Inr (t, unread) \<Longrightarrow> unread"
proof (induction n arbitrary: hs vals p)
  case 0
  then show ?case using parse_ff_unread by simp
next
  case (Suc n)
  from Suc.prems(2) obtain v where v: "parse_digits 2 p = Some v"
    by (auto split: option.splits)
  have d2: "CHR ''+'' \<in> set (drop 2 p)" by (rule plus_after_digits[OF v Suc.prems(1)])
  define c where "c = take 1 (drop 2 p)"
  define colons where "colons = (if vals = [] then c = '':'' else hs)"
  from d2 have ne: "c \<noteq> []" unfolding c_def by (cases "drop 2 p") auto
  have step: "parse_hh_mm_ss (Suc n) hs vals p =
      (if length p \<le> 3
       then Inr ((component (vals @ [v]) 0, component (vals @ [v]) 1,
                  component (vals @ [v]) 2, 0), c \<noteq> [])
       else if colons \<and> c = '':'' then parse_hh_mm_ss n colons (vals @ [v]) (drop 3 p)
       else if c = ''.'' \<or> c = '','' then parse_ff (vals @ [v]) (drop 3 p)
       else if \<not> colons then parse_hh_mm_ss n colons (vals @ [v]) (drop 2 p)
       else Inl ValueError)"
    unfolding colons_def c_def by (simp only: parse_hh_mm_ss.simps v option.case Let_def)
  show ?case
  proof (cases "length p \<le> 3")
    case True
    with Suc.prems(2) ne show ?thesis unfolding step by simp
  next
    case long: False
    show ?thesis
    proof (cases "colons \<and> c = '':''")
      case True
      then have "CHR ''+'' \<in> set (drop 3 p)"
        using plus_after_char[OF d2, of "CHR '':''"] by (simp add: c_def)
      moreover from Suc.prems(2) long True
      have "parse_hh_mm_ss n colons (vals @ [v]) (drop 3 p) = Inr (t, unread)"
        unfolding step by simp
      ultimately show ?thesis by (rule Suc.IH)
    next
      case nc: False
      show ?thesis
      proof (cases "c = ''.'' \<or> c = '',''")
        case True
        then have "CHR ''+'' \<in> set (drop 3 p)"
          using plus_after_char[OF d2, of "CHR ''.''"] plus_after_char[OF d2, of "CHR '',''"]
          by (auto simp: c_def)
        moreover from Suc.prems(2) long nc True
        have "parse_ff (vals @ [v]) (drop 3 p) = Inr (t, unread)"
          unfolding step by auto
        ultimately show ?thesis by (rule parse_ff_unread)
      next
        case False
        with Suc.prems(2) long nc
        have "parse_hh_mm_ss n colons (vals @ [v]) (drop 2 p) = Inr (t, unread)"
          unfolding step by (simp split: if_splits)
        with d2 show ?thesis by (rule Suc.IH)
      qed
    qed
  qed
qed

lemma parse_hh_mm_ss_ff_unread:
  "CHR ''+'' \<in> set p \<Longrightarrow> parse_hh_mm_ss_ff p = Inr (t, unread) \<Longrightarrow> unread"
  unfolding parse_hh_mm_ss_ff_def by (rule parse_hh_mm_ss_unread)

text \<open>With the offset appended, the time-and-offset part is read as UTC or not at all.\<close>

lemma parse_isoformat_time_offset:
  assumes "parse_isoformat_time x = Inr (t, tz)"
    and "n = length (takeWhile (\<lambda>c. c \<notin> set ''Z+-'') x)" and "n \<noteq> length x"
  shows "tz = Some (0, 0) \<or>
    (\<exists>h m s us. parse_hh_mm_ss_ff (drop (Suc n) x) = Inr ((h, m, s, us), False)
       \<and> tz = Some ((if x ! n = CHR ''-'' then - 1 else 1) * (int h * 3600 + int m * 60 + int s),
                    (if x ! n = CHR ''-'' then - 1 else 1) * int us))"
proof -
  have unf: "parse_isoformat_time x =
      andthen (parse_hh_mm_ss_ff (take n x)) (\<lambda>(t, unread).
        if n = length x then (if unread then Inl ValueError else Inr (t, None))
        else if x ! n = CHR ''Z''
        then (if Suc n \<noteq> length x then Inl ValueError else Inr (t, Some (0, 0)))
        else
          andthen (parse_hh_mm_ss_ff (drop (Suc n) x))
            (\<lambda>((tzhour, tzminute, tzsecond, tzmicrosecond), unread).
               let tzsign = (if x ! n = CHR ''-'' then - 1 else 1) in
               if unread then Inl ValueError
               else Inr (t, Some (tzsign * (int tzhour * 3600 + int tzminute * 60 + int tzsecond),
                                  tzsign * int tzmicrosecond))))"
    unfolding assms(2) parse_isoformat_time_def Let_def ..
  from assms(1,3) show ?thesis
    unfolding unf
    by (auto simp: andthen_def Let_def split: sum.splits prod.splits if_splits)
qed

lemma parse_isoformat_time_appended:
  assumes "parse_isoformat_time (s @ ''+00:00'') = Inr (t, tz)"
  shows "tz = Some (0, 0)"
proof -
  let ?P = "\<lambda>c. c \<notin> set ''Z+-''"
  let ?x = "s @ ''+00:00''"
  define n where "n = length (takeWhile ?P ?x)"
  have "takeWhile ?P ?x = takeWhile ?P s"
    by (rule takeWhile_stop) simp
  then have n: "n = length (takeWhile ?P s)" by (simp only: n_def)
  have le: "n \<le> length s" unfolding n by (rule length_takeWhile_le)
  then have lt: "n \<noteq> length ?x" by simp
  have rest: "CHR ''+'' \<in> set (drop (Suc n) ?x) \<or> drop (Suc n) ?x = ''00:00''"
  proof (cases "n = length s")
    case True
    then show ?thesis by simp
  next
    case False
    with le have "Suc n \<le> length s" by simp
    then show ?thesis by simp
  qed
  from parse_isoformat_time_offset[OF assms n_def lt]
  show ?thesis
  proof
    assume "tz = Some (0, 0)"
    then show ?thesis .
  next
    assume "\<exists>h m s' us. parse_hh_mm_ss_ff (drop (Suc n) ?x) = Inr ((h, m, s', us), False)
       \<and> tz = Some ((if ?x ! n = CHR ''-'' then - 1 else 1) * (int h * 3600 + int m * 60 + int s'),
                    (if ?x ! n = CHR ''-'' then - 1 else 1) * int us)"
    then obtain h m s' us where
      p: "parse_hh_mm_ss_ff (drop (Suc n) ?x) = Inr ((h, m, s', us), False)"
      and tz: "tz = Some ((if ?x ! n = CHR ''-'' then - 1 else 1) * (int h * 3600 + int m * 60 + int s'),
                    (if ?x ! n = CHR ''-'' then - 1 else 1) * int us)"
      by blast
    from rest p have "drop (Suc n) ?x = ''00:00''"
      using parse_hh_mm_ss_ff_unread by blast
    with p have "(h, m, s', us) = (0, 0, 0, 0)" by (simp add: utc_offset_zero)
    with tz show ?thesis by simp
  qed
qed

lemma tzinfo_utc: "tzinfo_from_isoformat_results (Some (0, 0)) = Inr (Some 0)"
  by (simp add: tzinfo_from_isoformat_results_def)

lemma fromisoformat_appended:
  assumes "fromisoformat (d @ ''+00:00'') = Inr r" and "7 \<le> length d"
    and "find_isoformat_datetime_separator d = Some p"
    and "p + separator_width (d ! p) \<le> length d"
  shows "tzinfo r = Some 0"
proof -
  let ?k = "p + separator_width (d ! p)"
  have "0 < separator_width (d ! p)" by (simp add: separator_width_def)
  with assms(4) have p: "p < length d" by simp
  have sep: "find_isoformat_datetime_separator (d @ ''+00:00'') = Some p"
    by (rule find_separator_utc[OF assms(3) p assms(2)])
  have dr: "drop ?k (d @ ''+00:00'') = drop ?k d @ ''+00:00''" using assms(4) by simp
  from assms(1) sep p assms(2) obtain dd t tz tzi where
    t: "parse_isoformat_time (drop ?k d @ ''+00:00'') = Inr (t, tz)"
    and z: "tzinfo_from_isoformat_results tz = Inr tzi"
    and m: "make_datetime dd (t, tzi) = Inr r"
    unfolding fromisoformat_def dr[symmetric]
    by (auto simp: andthen_def nth_append split: sum.splits prod.splits if_splits)
  from parse_isoformat_time_appended[OF t] z have "tzi = Some 0" by (simp add: tzinfo_utc)
  with make_datetime_tzinfo[OF m] show ?thesis by simp
qed

lemma summary_received_at:
  assumes "summary_of (JObj m) = Inr s" and "map_of m ''receivedAt'' = Some v"
  shows "received_at_of v = Inr (es_received_at s)"
  using assms
  by (auto simp: summary_of_def andthen_def split: sum.splits option.splits)

lemma detail_received_at:
  assumes "detail_of (JObj m) = Inr e" and "map_of m ''receivedAt'' = Some v"
  shows "received_at_of v = Inr (ed_received_at e)"
  using assms
  by (auto simp: detail_of_def andthen_def split: sum.splits option.splits)

lemma fromisoformat_example:
  "fromisoformat ''2024-01-15T10:30:00'' =
     Inr \<lparr>year = 2024, month = 1, day = 15, hour = 10, minute = 30, second = 0,
          microsecond = 0, tzinfo = None\<rparr>"
  by (simp add: fromisoformat_eval)

lemma detail_of_mail1:
  "detail_of mail1_detail =
     Inr \<lparr>ed_id = JStr ''e1'', ed_sender = JStr ''alice@example.com'',
          ed_to = JArr [JStr ''a+b@example.com''], ed_subject = JStr ''Hi'',
          ed_html = JStr ''<p>Hello</p>'', ed_text = JStr ''Hello'',
          ed_received_at = \<lparr>year = 2024, month = 1, day = 15, hour = 10, minute = 30,
                             second = 0, microsecond = 0, tzinfo = Some 0\<rparr>,
          ed_has_attachments = JBool False, ed_attachments = []\<rparr>"
  by (simp add: detail_of_def mail1_detail_def andthen_def received_at_example)

section \<open>Polling\<close>

text \<open>
  Claim C1. \<^verbatim>\<open>poll_for_emails\<close> repeatedly calls \<^verbatim>\<open>list_emails(address, limit=1)\<close>. When the
  first \<open>k\<close> checks report no new email and check \<open>k\<close>, made before the timeout has
  elapsed, returns a total greater than the initial count and a non-empty data sequence, the
  poll returns the first summary of that check at once: the trace is \<open>k\<close> rounds of request
  and sleep followed by the one request, with no sleep after it. When no check made before
  the timeout has a new email, the poll returns \<open>None\<close> as soon as the elapsed time has
  reached the timeout. A check is the call \<^verbatim>\<open>list_emails(address, limit=1)\<close>: it returns
  \<open>check\<close> of the number of requests sent so far, takes \<open>lag\<close> of that number and
  sends the request \<open>polled\<close>, whose query is \<^verbatim>\<open>limit=1\<close>.
\<close>

theorem poll_for_emails_first_match:
  assumes "0 \<le> interval" and "\<forall>n. 0 \<le> lag rt c address n"
  shows "(\<forall>k result.
            (\<forall>i<k. no_new_mail initial_count (check rt c address (sent w + i))) \<and>
            elapsed rt c address interval (sent w) k < tmo \<and>
            check rt c address (sent w + k) = Inr result \<and>
            py_gt (total result) initial_count = Inr True \<and> data result \<noteq> [] \<longrightarrow>
            poll_for_emails rt c address tmo interval initial_count w =
              Some (Inr (Some (hd (data result))),
                    \<lparr>now = now w + elapsed rt c address interval (sent w) k
                             + lag rt c address (sent w + k),
                     sent = sent w + k + 1,
                     trace = trace w @ rounds (polled rt c address) interval k
                             @ [Requested (polled rt c address)]\<rparr>))
       \<and> (0 < interval \<and>
            (\<forall>i. elapsed rt c address interval (sent w) i < tmo \<longrightarrow>
                no_new_mail initial_count (check rt c address (sent w + i))) \<longrightarrow>
            (\<exists>k. tmo \<le> elapsed rt c address interval (sent w) k \<and>
                 poll_for_emails rt c address tmo interval initial_count w =
                   Some (Inr None, after_rounds rt c address interval k w)))
       \<and> (\<forall>v. list_emails rt c address 1 None v =
                (check rt c address (sent v),
                 v\<lparr>now := now v + lag rt c address (sent v), sent := Suc (sent v),
                   trace := trace v @ [Requested (polled rt c address)]\<rparr>))
       \<and> rq_url (polled rt c address)
            = base_url c @ ''/mailbox/'' @ quote address [] @ ''?limit=1''"
proof (intro conjI allI impI)
  fix k result
  assume h: "(\<forall>i<k. no_new_mail initial_count (check rt c address (sent w + i))) \<and>
            elapsed rt c address interval (sent w) k < tmo \<and>
            check rt c address (sent w + k) = Inr result \<and>
            py_gt (total result) initial_count = Inr True \<and> data result \<noteq> []"
  let ?wk = "after_rounds rt c address interval k w"
  have before: "\<forall>i<k. now w + elapsed rt c address interval (sent w) i - now w < tmo"
  proof (intro allI impI)
    fix i assume "i < k"
    then have "elapsed rt c address interval (sent w) i \<le> elapsed rt c address interval (sent w) k"
      using elapsed_mono[OF assms(2) assms(1), of i k "sent w"] by simp
    with h show "now w + elapsed rt c address interval (sent w) i - now w < tmo" by simp
  qed
  have "poll_loop rt c address tmo interval initial_count (now w) w =
        poll_loop rt c address tmo interval initial_count (now w) ?wk"
    using poll_loop_unroll[of k initial_count rt c address w interval "now w" tmo] h before assms(1)
    by simp
  also have "\<dots> = Some (Inr (Some (hd (data result))),
               \<lparr>now = now ?wk + lag rt c address (sent ?wk), sent = Suc (sent ?wk),
                trace = trace ?wk @ [Requested (polled rt c address)]\<rparr>)"
    by (rule poll_loop_found) (use h in \<open>simp_all add: after_rounds_simps\<close>)
  finally show "poll_for_emails rt c address tmo interval initial_count w =
              Some (Inr (Some (hd (data result))),
                    \<lparr>now = now w + elapsed rt c address interval (sent w) k
                             + lag rt c address (sent w + k),
                     sent = sent w + k + 1,
                     trace = trace w @ rounds (polled rt c address) interval k
                             @ [Requested (polled rt c address)]\<rparr>)"
    by (simp add: poll_for_emails_def after_rounds_simps)
next
  assume h0: "0 < interval \<and>
            (\<forall>i. elapsed rt c address interval (sent w) i < tmo \<longrightarrow>
                no_new_mail initial_count (check rt c address (sent w + i)))"
  then have pos: "0 < interval"
    and h: "\<forall>i. elapsed rt c address interval (sent w) i < tmo \<longrightarrow>
                no_new_mail initial_count (check rt c address (sent w + i))"
    by simp_all
  define P where "P = (\<lambda>k. tmo \<le> elapsed rt c address interval (sent w) k)"
  have ex: "\<exists>k. P k" unfolding P_def by (rule elapsed_reaches[OF assms(2) pos])
  define k where "k = (LEAST k. P k)"
  have Pk: "P k" unfolding k_def using ex by (metis LeastI)
  have less: "\<And>i. i < k \<Longrightarrow> \<not> P i" unfolding k_def by (rule not_less_Least)
  let ?wk = "after_rounds rt c address interval k w"
  have "poll_loop rt c address tmo interval initial_count (now w) w =
        poll_loop rt c address tmo interval initial_count (now w) ?wk"
  proof (rule poll_loop_unroll)
    show "\<forall>i<k. no_new_mail initial_count (check rt c address (sent w + i))"
      using less h by (simp add: P_def not_le)
    show "0 \<le> interval" by (rule assms(1))
    show "\<forall>i<k. now w + elapsed rt c address interval (sent w) i - now w < tmo"
      using less by (simp add: P_def not_le)
  qed
  also have "\<dots> = Some (Inr None, ?wk)"
    by (rule poll_loop_deadline) (use Pk in \<open>simp add: P_def after_rounds_simps\<close>)
  finally have "poll_for_emails rt c address tmo interval initial_count w = Some (Inr None, ?wk)"
    by (simp add: poll_for_emails_def)
  with Pk show "\<exists>k. tmo \<le> elapsed rt c address interval (sent w) k \<and>
                 poll_for_emails rt c address tmo interval initial_count w =
                   Some (Inr None, after_rounds rt c address interval k w)"
    unfolding P_def by blast
next
  fix v
  show "list_emails rt c address 1 None v =
          (check rt c address (sent v),
           v\<lparr>now := now v + lag rt c address (sent v), sent := Suc (sent v),
             trace := trace v @ [Requested (polled rt c address)]\<rparr>)"
    by (rule list_emails_poll)
next
  show "rq_url (polled rt c address) = base_url c @ ''/mailbox/'' @ quote address [] @ ''?limit=1''"
    by (rule polled_url)
qed

text \<open>
  On the server that has a message from the third request on, a poll with a generous
  timeout returns it after two sleeps; with a timeout of one second it returns \<open>None\<close>.
\<close>

theorem poll_for_emails_first_match_witness:
  "poll_for_emails rt_mail client0 ''a+b@example.com'' 60 5 0 w0 =
     Some (Inr (Some summary1),
           \<lparr>now = 13, sent = 3,
            trace = [Requested (polled rt_mail client0 ''a+b@example.com''), Slept 5,
                     Requested (polled rt_mail client0 ''a+b@example.com''), Slept 5,
                     Requested (polled rt_mail client0 ''a+b@example.com'')]\<rparr>)
   \<and> map_option fst (poll_for_emails rt_mail client0 ''a+b@example.com'' 1 5 0 w0) = Some (Inr None)"
proof -
  let ?a = "''a+b@example.com''"
  have lag: "\<forall>n. 0 \<le> lag rt_mail client0 ?a n" by (simp add: lag_mail)
  have quiet: "\<forall>i<2. no_new_mail 0 (check rt_mail client0 ?a (sent w0 + i))"
    by (simp add: w0_def check_mail_early no_new_mail_quiet)
  have found: "check rt_mail client0 ?a (sent w0 + 2)
      = Inr \<lparr>data = [summary1], next_cursor = JNull, total = JInt 1\<rparr>"
    using check_mail_third[of ?a] by (simp add: w0_def numeral_2_eq_2)
  have el: "elapsed rt_mail client0 ?a 5 (sent w0) 2 = 12"
    by (simp add: w0_def elapsed_mail)
  have pos: "(0::real) \<le> 5" by simp
  note T = poll_for_emails_first_match[OF pos lag, of 0 w0 60]
  have A: "poll_for_emails rt_mail client0 ?a 60 5 0 w0 =
     Some (Inr (Some summary1),
           \<lparr>now = 13, sent = 3,
            trace = [Requested (polled rt_mail client0 ?a), Slept 5,
                     Requested (polled rt_mail client0 ?a), Slept 5,
                     Requested (polled rt_mail client0 ?a)]\<rparr>)"
    using conjunct1[OF T, rule_format, of 2 "\<lparr>data = [summary1], next_cursor = JNull, total = JInt 1\<rparr>"]
      quiet found el
    by (simp add: w0_def lag_mail rounds_def eval_nat_numeral)
  have late: "(0::real) < 5 \<and> (\<forall>i. elapsed rt_mail client0 ?a 5 (sent w0) i < 1 \<longrightarrow>
      no_new_mail 0 (check rt_mail client0 ?a (sent w0 + i)))"
  proof (intro conjI allI impI)
    show "(0::real) < 5" by simp
  next
    fix i assume h: "elapsed rt_mail client0 ?a 5 (sent w0) i < 1"
    have "i = 0"
    proof (rule ccontr)
      assume "i \<noteq> 0"
      then obtain j where "i = Suc j" by (cases i) auto
      moreover have "real j * 5 \<le> elapsed rt_mail client0 ?a 5 (sent w0) j"
        by (rule elapsed_grows[OF lag])
      ultimately show False using h by (simp add: lag_mail)
    qed
    then show "no_new_mail 0 (check rt_mail client0 ?a (sent w0 + i))"
      by (simp add: w0_def check_mail_early no_new_mail_quiet)
  qed
  have B: "map_option fst (poll_for_emails rt_mail client0 ?a 1 5 0 w0) = Some (Inr None)"
    using mp[OF conjunct1[OF conjunct2[OF poll_for_emails_first_match[OF pos lag, of 0 w0 1]]] late]
    by auto
  from A B show ?thesis by simp
qed

text \<open>
  Claim C2, as the code has it. The sleep between two checks always lasts the whole interval;
  it is not shortened to the time that remains. When the interval is positive and no request
  takes a negative time or more than \<open>dmax\<close>, the poll returns, its trace is some rounds of
  request and sleep, possibly followed by one last request, every sleep in it lasts exactly
  the interval, and it returns less than the interval plus \<open>dmax\<close> after the timeout: with
  requests that take no time, never past one extra interval beyond the timeout.
\<close>

theorem poll_sleeps_whole_interval:
  assumes "0 < interval" and "0 \<le> tmo"
    and "\<forall>n. 0 \<le> lag rt c address n \<and> lag rt c address n \<le> dmax"
  shows "\<exists>res w' k tail.
           poll_for_emails rt c address tmo interval initial_count w = Some (res, w') \<and>
           trace w' = trace w @ rounds (polled rt c address) interval k @ tail \<and>
           (tail = [] \<or> tail = [Requested (polled rt c address)]) \<and>
           (\<forall>d. Slept d \<in> set (rounds (polled rt c address) interval k @ tail) \<longrightarrow> d = interval) \<and>
           now w' - now w < tmo + dmax + interval"
proof -
  have lag0: "\<forall>n. 0 \<le> lag rt c address n" using assms(3) by simp
  have dmax0: "0 \<le> dmax" using assms(3) by (meson order_trans)
  define P where "P = (\<lambda>k. tmo \<le> elapsed rt c address interval (sent w) k \<or>
                         \<not> no_new_mail initial_count (check rt c address (sent w + k)))"
  have ex: "\<exists>k. P k" unfolding P_def using elapsed_reaches[OF lag0 assms(1)] by blast
  define k where "k = (LEAST k. P k)"
  have Pk: "P k" unfolding k_def using ex by (metis LeastI)
  have less: "\<And>i. i < k \<Longrightarrow> \<not> P i" unfolding k_def by (rule not_less_Least)
  let ?req = "polled rt c address"
  let ?wk = "after_rounds rt c address interval k w"
  have unroll: "poll_loop rt c address tmo interval initial_count (now w) w =
        poll_loop rt c address tmo interval initial_count (now w) ?wk"
  proof (rule poll_loop_unroll)
    show "\<forall>i<k. no_new_mail initial_count (check rt c address (sent w + i))"
      using less by (simp add: P_def)
    show "0 \<le> interval" using assms(1) by simp
    show "\<forall>i<k. now w + elapsed rt c address interval (sent w) i - now w < tmo"
      using less by (simp add: P_def not_le)
  qed
  have sleeps: "\<And>tail d. tail = [] \<or> tail = [Requested ?req] \<Longrightarrow>
      Slept d \<in> set (rounds ?req interval k @ tail) \<Longrightarrow> d = interval"
    using rounds_sleeps by fastforce
  show ?thesis
  proof (cases "tmo \<le> elapsed rt c address interval (sent w) k")
    case True
    have "poll_loop rt c address tmo interval initial_count (now w) ?wk = Some (Inr None, ?wk)"
      by (rule poll_loop_deadline) (use True in \<open>simp add: after_rounds_simps\<close>)
    with unroll have run: "poll_for_emails rt c address tmo interval initial_count w
        = Some (Inr None, ?wk)"
      by (simp add: poll_for_emails_def)
    have bound: "elapsed rt c address interval (sent w) k < tmo + dmax + interval"
    proof (cases k)
      case 0
      then show ?thesis using assms(1,2) dmax0 by simp
    next
      case (Suc j)
      then have "elapsed rt c address interval (sent w) j < tmo"
        using less[of j] by (simp add: P_def not_le)
      moreover have "lag rt c address (sent w + j) \<le> dmax" using assms(3) by simp
      ultimately show ?thesis using Suc by simp
    qed
    show ?thesis
    proof (intro exI conjI)
      show "poll_for_emails rt c address tmo interval initial_count w = Some (Inr None, ?wk)"
        by (rule run)
      show "trace ?wk = trace w @ rounds ?req interval k @ []"
        by (simp add: after_rounds_simps)
      show "[] = [] \<or> [] = [Requested ?req]" by simp
      show "\<forall>d. Slept d \<in> set (rounds ?req interval k @ []) \<longrightarrow> d = interval"
        using sleeps[of "[]"] by blast
      show "now ?wk - now w < tmo + dmax + interval"
        using bound by (simp add: after_rounds_simps)
    qed
  next
    case False
    then have early: "elapsed rt c address interval (sent w) k < tmo" by simp
    from False Pk have stop: "\<not> no_new_mail initial_count (check rt c address (sent w + k))"
      by (simp add: P_def)
    let ?w' = "\<lparr>now = now ?wk + lag rt c address (sent ?wk), sent = Suc (sent ?wk),
                trace = trace ?wk @ [Requested ?req]\<rparr>"
    obtain res where "poll_loop rt c address tmo interval initial_count (now w) ?wk
        = Some (res, ?w')"
      using poll_loop_stops[of ?wk "now w" tmo initial_count rt c address interval] early stop
      by (auto simp: after_rounds_simps)
    with unroll have run: "poll_for_emails rt c address tmo interval initial_count w
        = Some (res, ?w')"
      by (simp add: poll_for_emails_def)
    have "lag rt c address (sent w + k) \<le> dmax" using assms(3) by simp
    with early assms(1) have bound:
      "elapsed rt c address interval (sent w) k + lag rt c address (sent w + k)
         < tmo + dmax + interval" by simp
    show ?thesis
    proof (intro exI conjI)
      show "poll_for_emails rt c address tmo interval initial_count w = Some (res, ?w')"
        by (rule run)
      show "trace ?w' = trace w @ rounds ?req interval k @ [Requested ?req]"
        by (simp add: after_rounds_simps)
      show "[Requested ?req] = [] \<or> [Requested ?req] = [Requested ?req]" by simp
      show "\<forall>d. Slept d \<in> set (rounds ?req interval k @ [Requested ?req]) \<longrightarrow> d = interval"
        using sleeps[of "[Requested ?req]"] by blast
      show "now ?w' - now w < tmo + dmax + interval"
        using bound by (simp add: after_rounds_simps)
    qed
  qed
qed

theorem poll_sleeps_whole_interval_witness:
  "\<exists>res w'. poll_for_emails rt_quiet client0 ''a+b@example.com'' 10 100 0 w0 = Some (res, w')
      \<and> now w' - now w0 < 10 + 0 + 100"
proof -
  have "(0::real) < 100" and "(0::real) \<le> 10" by simp_all
  moreover have "\<forall>n. 0 \<le> lag rt_quiet client0 ''a+b@example.com'' n
      \<and> lag rt_quiet client0 ''a+b@example.com'' n \<le> 0"
    by (simp add: lag_quiet)
  ultimately show ?thesis
    using poll_sleeps_whole_interval[of 100 10 rt_quiet client0 "''a+b@example.com''" 0 0 w0]
    by blast
qed

text \<open>
  Claim C2 as stated, that each sleep lasts at most the time remaining until the deadline,
  fails: with a timeout of 10 and an interval of 100 on a mailbox that stays empty, the one
  sleep lasts 100 seconds although 10 remain, and the poll returns at time 100.
\<close>

theorem poll_sleep_exceeds_remaining_time:
  "poll_for_emails rt_quiet client0 ''a+b@example.com'' 10 100 0 w0 =
     Some (Inr None,
           \<lparr>now = 100, sent = 1,
            trace = [Requested (polled rt_quiet client0 ''a+b@example.com''), Slept 100]\<rparr>)"
proof -
  let ?a = "''a+b@example.com''"
  let ?w1 = "w0\<lparr>now := now w0 + lag rt_quiet client0 ?a (sent w0) + 100, sent := Suc (sent w0),
              trace := trace w0 @ [Requested (polled rt_quiet client0 ?a), Slept 100]\<rparr>"
  have "poll_loop rt_quiet client0 ?a 10 100 0 (now w0) w0 =
        poll_loop rt_quiet client0 ?a 10 100 0 (now w0) ?w1"
    by (rule poll_loop_sleeps) (simp_all add: check_quiet no_new_mail_quiet)
  also have "\<dots> = Some (Inr None, ?w1)"
    by (rule poll_loop_deadline) (simp add: lag_quiet)
  finally show ?thesis
    by (simp add: poll_for_emails_def w0_def lag_quiet)
qed

text \<open>
  Claim C10. When the first \<open>k\<close> checks report no new email and the call of
  \<^verbatim>\<open>list_emails\<close> that follows these \<open>k\<close> rounds, made before the timeout has elapsed,
  raises, the poll raises the same exception at once: the trace is \<open>k\<close> rounds of request
  and sleep followed by the failing request, so there is no further request and no further
  sleep, and only "no email yet" was retried.
\<close>

theorem poll_error_propagates:
  assumes "0 \<le> interval" and "\<forall>n. 0 \<le> lag rt c address n"
    and "\<forall>i<k. no_new_mail initial_count (check rt c address (sent w + i))"
    and "elapsed rt c address interval (sent w) k < tmo"
    and "fst (list_emails rt c address 1 None (after_rounds rt c address interval k w)) = Inl e"
  shows "poll_for_emails rt c address tmo interval initial_count w =
           Some (Inl e,
                 \<lparr>now = now w + elapsed rt c address interval (sent w) k
                          + lag rt c address (sent w + k),
                  sent = sent w + k + 1,
                  trace = trace w @ rounds (polled rt c address) interval k
                          @ [Requested (polled rt c address)]\<rparr>)"
proof -
  let ?wk = "after_rounds rt c address interval k w"
  have before: "\<forall>i<k. now w + elapsed rt c address interval (sent w) i - now w < tmo"
  proof (intro allI impI)
    fix i assume "i < k"
    then have "elapsed rt c address interval (sent w) i \<le> elapsed rt c address interval (sent w) k"
      using elapsed_mono[OF assms(2) assms(1), of i k "sent w"] by simp
    with assms(4) show "now w + elapsed rt c address interval (sent w) i - now w < tmo" by simp
  qed
  have "poll_loop rt c address tmo interval initial_count (now w) w =
        poll_loop rt c address tmo interval initial_count (now w) ?wk"
    by (rule poll_loop_unroll[OF assms(3) assms(1) before])
  also have "\<dots> = Some (Inl e,
               \<lparr>now = now ?wk + lag rt c address (sent ?wk), sent = Suc (sent ?wk),
                trace = trace ?wk @ [Requested (polled rt c address)]\<rparr>)"
    by (rule poll_loop_raises)
       (use assms(4,5) in \<open>simp_all add: after_rounds_simps list_emails_poll\<close>)
  finally show ?thesis
    by (simp add: poll_for_emails_def after_rounds_simps)
qed

theorem poll_error_propagates_witness:
  "poll_for_emails rt_down client0 ''a+b@example.com'' 60 5 0 w0 =
     Some (Inl (VanishError (JStr ''Connection error: timed out'') None),
           \<lparr>now = 7, sent = 2,
            trace = [Requested (polled rt_down client0 ''a+b@example.com''), Slept 5,
                     Requested (polled rt_down client0 ''a+b@example.com'')]\<rparr>)"
proof -
  let ?a = "''a+b@example.com''"
  have 1: "(0::real) \<le> 5" by simp
  have 2: "\<forall>n. 0 \<le> lag rt_down client0 ?a n" by (simp add: lag_down)
  have 3: "\<forall>i<Suc 0. no_new_mail 0 (check rt_down client0 ?a (sent w0 + i))"
    by (simp add: w0_def check_down0 no_new_mail_quiet)
  have 4: "elapsed rt_down client0 ?a 5 (sent w0) (Suc 0) < 60"
    by (simp add: lag_down)
  have 5: "fst (list_emails rt_down client0 ?a 1 None (after_rounds rt_down client0 ?a 5 (Suc 0) w0))
      = Inl (VanishError (JStr ''Connection error: timed out'') None)"
    by (simp add: list_emails_poll after_rounds_simps w0_def check_down1)
  show ?thesis
    using poll_error_propagates[OF 1 2 3 4 5]
    by (simp add: w0_def lag_down rounds_def)
qed

section \<open>Errors\<close>

text \<open>
  A failure that the transport reports as a \<^verbatim>\<open>URLError\<close> is wrapped by every operation: it
  raises a \<^verbatim>\<open>VanishError\<close> whose message is \<^verbatim>\<open>Connection error:\<close> followed by the reason and
  whose status code is \<open>None\<close>; a poll does so as soon as it has made its first request.
\<close>

lemma urlerror_is_wrapped:
  assumes "\<forall>req. snd (urlopen rt (sent w) req (timeout c)) = URLError reason"
  shows "fst (get_domains rt c w) = Inl (VanishError (JStr (''Connection error: '' @ reason)) None)
    \<and> fst (generate_email rt c domain prefix w)
        = Inl (VanishError (JStr (''Connection error: '' @ reason)) None)
    \<and> fst (list_emails rt c address limit cursor w)
        = Inl (VanishError (JStr (''Connection error: '' @ reason)) None)
    \<and> fst (get_email rt c email_id w)
        = Inl (VanishError (JStr (''Connection error: '' @ reason)) None)
    \<and> fst (get_attachment rt c email_id attachment_id w)
        = Inl (VanishError (JStr (''Connection error: '' @ reason)) None)
    \<and> fst (delete_email rt c email_id w)
        = Inl (VanishError (JStr (''Connection error: '' @ reason)) None)
    \<and> fst (delete_mailbox rt c address w)
        = Inl (VanishError (JStr (''Connection error: '' @ reason)) None)
    \<and> (0 < tmo \<longrightarrow>
         map_option fst (poll_for_emails rt c address tmo interval initial_count w)
           = Some (Inl (VanishError (JStr (''Connection error: '' @ reason)) None)))"
proof -
  note ops = request_eq assms receive_URLError andthen_Inl Let_def
  have l: "\<And>lim cur. fst (list_emails rt c address lim cur w)
      = Inl (VanishError (JStr (''Connection error: '' @ reason)) None)"
    by (simp add: list_emails_def ops)
  have "fst (get_domains rt c w) = Inl (VanishError (JStr (''Connection error: '' @ reason)) None)"
    by (simp add: get_domains_def ops)
  moreover have "fst (generate_email rt c domain prefix w)
        = Inl (VanishError (JStr (''Connection error: '' @ reason)) None)"
    by (simp add: generate_email_def ops)
  moreover have "fst (get_email rt c email_id w)
        = Inl (VanishError (JStr (''Connection error: '' @ reason)) None)"
    by (simp add: get_email_def ops)
  moreover have "fst (get_attachment rt c email_id attachment_id w)
        = Inl (VanishError (JStr (''Connection error: '' @ reason)) None)"
    by (simp add: get_attachment_def ops)
  moreover have "fst (delete_email rt c email_id w)
        = Inl (VanishError (JStr (''Connection error: '' @ reason)) None)"
    by (simp add: delete_email_def ops)
  moreover have "fst (delete_mailbox rt c address w)
        = Inl (VanishError (JStr (''Connection error: '' @ reason)) None)"
    by (simp add: delete_mailbox_def ops)
  moreover have "0 < tmo \<longrightarrow>
         map_option fst (poll_for_emails rt c address tmo interval initial_count w)
           = Some (Inl (VanishError (JStr (''Connection error: '' @ reason)) None))"
    using poll_first_raises[OF _ l] by blast
  ultimately show ?thesis using l by blast
qed

text \<open>An exception of another class passes through \<^verbatim>\<open>_request\<close> and every operation unchanged.\<close>

lemma other_exception_escapes:
  assumes "\<forall>req. snd (urlopen rt (sent w) req (timeout c)) = Raised name"
  shows "fst (get_domains rt c w) = Inl (Propagated name)
    \<and> fst (generate_email rt c domain prefix w) = Inl (Propagated name)
    \<and> fst (list_emails rt c address limit cursor w) = Inl (Propagated name)
    \<and> fst (get_email rt c email_id w) = Inl (Propagated name)
    \<and> fst (get_attachment rt c email_id attachment_id w) = Inl (Propagated name)
    \<and> fst (delete_email rt c email_id w) = Inl (Propagated name)
    \<and> fst (delete_mailbox rt c address w) = Inl (Propagated name)"
  by (simp add: get_domains_def generate_email_def list_emails_def get_email_def
      get_attachment_def delete_email_def delete_mailbox_def request_eq assms receive_def
      andthen_Inl Let_def)

text \<open>
  Claim C5, at an input where the code departs from it. A server that accepts the connection
  and then sends nothing lets the timeout expire while \<^verbatim>\<open>urlopen\<close> waits for the response;
  \<^verbatim>\<open>urlopen\<close> then raises \<^verbatim>\<open>TimeoutError\<close>, which is not a \<^verbatim>\<open>URLError\<close>. The claim asks for a
  \<^verbatim>\<open>VanishError\<close> with a connection-error message and no status code; \<^verbatim>\<open>_request\<close> catches
  \<^verbatim>\<open>HTTPError\<close> and \<^verbatim>\<open>URLError\<close> only, so the \<^verbatim>\<open>TimeoutError\<close> escapes from every operation
  and from a poll. A refused connection does surface as the claim says.
\<close>

theorem timeout_expiry_not_wrapped:
  "fst (get_domains (rt_always (Raised ''TimeoutError'')) client0 w0)
     = Inl (Propagated ''TimeoutError'')
   \<and> fst (generate_email (rt_always (Raised ''TimeoutError'')) client0 None None w0)
     = Inl (Propagated ''TimeoutError'')
   \<and> fst (list_emails (rt_always (Raised ''TimeoutError'')) client0 ''a+b@example.com'' 20 None w0)
     = Inl (Propagated ''TimeoutError'')
   \<and> fst (get_email (rt_always (Raised ''TimeoutError'')) client0 ''e1'' w0)
     = Inl (Propagated ''TimeoutError'')
   \<and> fst (get_attachment (rt_always (Raised ''TimeoutError'')) client0 ''e1'' ''a1'' w0)
     = Inl (Propagated ''TimeoutError'')
   \<and> fst (delete_email (rt_always (Raised ''TimeoutError'')) client0 ''e1'' w0)
     = Inl (Propagated ''TimeoutError'')
   \<and> fst (delete_mailbox (rt_always (Raised ''TimeoutError'')) client0 ''a+b@example.com'' w0)
     = Inl (Propagated ''TimeoutError'')
   \<and> map_option fst (poll_for_emails (rt_always (Raised ''TimeoutError'')) client0
                       ''a+b@example.com'' 60 5 0 w0)
     = Some (Inl (Propagated ''TimeoutError''))
   \<and> fst (get_domains rt_refused client0 w0)
     = Inl (VanishError (JStr ''Connection error: [Errno 111] Connection refused'') None)"
proof -
  let ?rt = "rt_always (Raised ''TimeoutError'')"
  have out: "\<forall>req. snd (urlopen ?rt (sent w0) req (timeout client0)) = Raised ''TimeoutError''"
    by (simp add: rt_always_outcome)
  have refused: "\<forall>req. snd (urlopen rt_refused (sent w0) req (timeout client0))
      = URLError ''[Errno 111] Connection refused''"
    by (simp add: rt_refused_def scripted_def)
  have "fst (list_emails ?rt client0 ''a+b@example.com'' 1 None w0)
      = Inl (Propagated ''TimeoutError'')"
    using other_exception_escapes[OF out] by blast
  then have "map_option fst (poll_for_emails ?rt client0 ''a+b@example.com'' 60 5 0 w0)
      = Some (Inl (Propagated ''TimeoutError''))"
    by (rule poll_first_raises[rotated]) simp
  moreover have "fst (get_domains rt_refused client0 w0)
      = Inl (VanishError (JStr ''Connection error: [Errno 111] Connection refused'') None)"
    using urlerror_is_wrapped[OF refused] by simp
  ultimately show ?thesis
    using other_exception_escapes[OF out, of None None "''a+b@example.com''" 20 None "''e1''" "''a1''"]
    by simp
qed

text \<open>
  Claim C4, at an input where the code departs from it. An HTTP 500 response whose body is
  the JSON array \<^verbatim>\<open>[]\<close> parses as JSON with no \<^verbatim>\<open>error\<close> field, so the claim asks for a
  \<^verbatim>\<open>VanishError\<close> with a generic status description and status code 500; the handler calls
  \<^verbatim>\<open>error_body.get\<close> on the list and \<^verbatim>\<open>AttributeError\<close> escapes instead. The 404 response with
  body \<^verbatim>\<open>{"error":"mailbox not found"}\<close> does surface as the claim says.
\<close>

theorem error_body_not_an_object:
  \<open>fst (list_emails (rt_always (HTTPError 500 ''Internal Server Error'' ''[]'')) client0
          ''a+b@example.com'' 20 None w0) = Inl AttributeError
   \<and> fst (get_email (rt_always (HTTPError 500 ''Internal Server Error'' ''[]'')) client0
          ''e1'' w0) = Inl AttributeError
   \<and> fst (delete_mailbox
            (rt_always (HTTPError 404 ''Not Found'' ''{"error":"mailbox not found"}'')) client0
            ''a+b@example.com'' w0) = Inl (VanishError (JStr ''mailbox not found'') (Some 404))\<close>
  by (simp add: list_emails_def get_email_def delete_mailbox_def request_eq receive_def
      rt_always_def scripted_def pages_def page0_def page1_def detail1_def andthen_def Let_def)

section \<open>URLs\<close>

text \<open>The operations on one message put its identifiers into the path unchanged.\<close>

lemma identifier_paths:
  "trace (snd (get_email rt c email_id w)) =
     trace w @ [Requested \<lparr>rq_method = ''GET'', rq_url = base_url c @ ''/email/'' @ email_id,
                           rq_headers = build_headers c, rq_data = None\<rparr>]"
  "trace (snd (get_attachment rt c email_id attachment_id w)) =
     trace w @ [Requested \<lparr>rq_method = ''GET'',
                           rq_url = base_url c @ ''/email/'' @ email_id @ ''/attachments/''
                                    @ attachment_id,
                           rq_headers = build_headers c, rq_data = None\<rparr>]"
  "trace (snd (delete_email rt c email_id w)) =
     trace w @ [Requested \<lparr>rq_method = ''DELETE'', rq_url = base_url c @ ''/email/'' @ email_id,
                           rq_headers = build_headers c, rq_data = None\<rparr>]"
  by (simp_all add: get_email_def get_attachment_def delete_email_def request_eq
      build_request_def build_url_def)

text \<open>
  Claim C3, at an input where the code departs from it. \<^verbatim>\<open>get_email\<close> and
  \<^verbatim>\<open>get_attachment\<close> put the identifiers into the path as they are: the identifier
  \<^verbatim>\<open>a/b\<close> is sent as two path segments and \<^verbatim>\<open>c?d\<close> starts a query string, where
  percent-encoding, which \<^verbatim>\<open>list_emails\<close> and \<^verbatim>\<open>delete_mailbox\<close> apply to the address,
  would have sent \<^verbatim>\<open>a%2Fb\<close> and \<^verbatim>\<open>c%3Fd\<close>.
\<close>

theorem identifier_not_encoded:
  "trace (snd (get_email rt_quiet client0 ''a/b'' w0)) =
     [Requested \<lparr>rq_method = ''GET'', rq_url = ''https://api.vanish.host/email/a/b'',
                 rq_headers = [(''Content-Type'', ''application/json'')], rq_data = None\<rparr>]
   \<and> trace (snd (get_attachment rt_quiet client0 ''a/b'' ''c?d'' w0)) =
     [Requested \<lparr>rq_method = ''GET'',
                 rq_url = ''https://api.vanish.host/email/a/b/attachments/c?d'',
                 rq_headers = [(''Content-Type'', ''application/json'')], rq_data = None\<rparr>]
   \<and> quote ''a/b'' [] = ''a%2Fb'' \<and> quote ''c?d'' [] = ''c%3Fd''"
  by (simp add: get_email_def get_attachment_def request_eq build_request_def build_url_def
      base_url_client0 build_headers_client0 w0_def
      quote_def quoter_def ALWAYS_SAFE_def percent_def hex_char_def)

text \<open>
  Claim C9. For every address, the path segment that \<^verbatim>\<open>list_emails\<close> and
  \<^verbatim>\<open>delete_mailbox\<close> send after \<^verbatim>\<open>/mailbox/\<close> contains no slash and percent-decodes to the
  address exactly.
\<close>

theorem address_round_trip:
  "\<exists>seg query.
     unquote seg = address \<and> CHR ''/'' \<notin> set seg \<and>
     trace (snd (list_emails rt c address limit cursor w)) =
       trace w @ [Requested \<lparr>rq_method = ''GET'',
                             rq_url = base_url c @ ''/mailbox/'' @ seg @ ''?'' @ query,
                             rq_headers = build_headers c, rq_data = None\<rparr>] \<and>
     trace (snd (delete_mailbox rt c address w)) =
       trace w @ [Requested \<lparr>rq_method = ''DELETE'',
                             rq_url = base_url c @ ''/mailbox/'' @ seg,
                             rq_headers = build_headers c, rq_data = None\<rparr>]"
proof -
  let ?ps = "[(''limit'', PInt limit), (''cursor'', case cursor of None \<Rightarrow> PNone | Some s \<Rightarrow> PStr s)]"
  let ?query = "urlencode (filter (\<lambda>kv. snd kv \<noteq> PNone) ?ps)"
  have "set ''limit'' \<subseteq> ALWAYS_SAFE" by (simp add: ALWAYS_SAFE_def)
  then have "quote_plus ''limit'' [] = ''limit''" by (rule quote_plus_safe)
  then have "?query \<noteq> []"
    by (cases cursor) (simp_all add: urlencode_def join_def)
  then have "trace (snd (list_emails rt c address limit cursor w)) =
       trace w @ [Requested \<lparr>rq_method = ''GET'',
                             rq_url = base_url c @ ''/mailbox/'' @ quote address [] @ ''?'' @ ?query,
                             rq_headers = build_headers c, rq_data = None\<rparr>]"
    by (simp add: list_emails_def request_eq Let_def build_request_def build_url_def)
  moreover have "trace (snd (delete_mailbox rt c address w)) =
       trace w @ [Requested \<lparr>rq_method = ''DELETE'',
                             rq_url = base_url c @ ''/mailbox/'' @ quote address [],
                             rq_headers = build_headers c, rq_data = None\<rparr>]"
    by (simp add: delete_mailbox_def request_eq Let_def build_request_def build_url_def)
  ultimately show ?thesis
    using unquote_quote[of address] quote_no_slash[of address] by blast
qed

theorem address_round_trip_witness:
  "unquote ''a%2Bb%40example.com'' = ''a+b@example.com'' \<and>
   trace (snd (delete_mailbox rt_quiet client0 ''a+b@example.com'' w0)) =
     [Requested \<lparr>rq_method = ''DELETE'',
                 rq_url = ''https://api.vanish.host/mailbox/a%2Bb%40example.com'',
                 rq_headers = [(''Content-Type'', ''application/json'')], rq_data = None\<rparr>]"
proof -
  let ?a = "''a+b@example.com''"
  have t: "trace (snd (delete_mailbox rt_quiet client0 ?a w0)) =
     [Requested \<lparr>rq_method = ''DELETE'',
                 rq_url = ''https://api.vanish.host/mailbox/a%2Bb%40example.com'',
                 rq_headers = [(''Content-Type'', ''application/json'')], rq_data = None\<rparr>]"
    by (simp add: delete_mailbox_def request_eq Let_def build_request_def build_url_def
        base_url_client0 build_headers_client0 quote_example w0_def)
  obtain seg where s: "unquote seg = ?a"
    and "trace (snd (delete_mailbox rt_quiet client0 ?a w0)) =
       trace w0 @ [Requested \<lparr>rq_method = ''DELETE'',
                              rq_url = base_url client0 @ ''/mailbox/'' @ seg,
                              rq_headers = build_headers client0, rq_data = None\<rparr>]"
    using address_round_trip[of ?a rt_quiet client0 20 None w0] by blast
  with t have "seg = ''a%2Bb%40example.com''"
    by (simp add: w0_def base_url_client0)
  with s t show ?thesis by simp
qed

text \<open>
  Claim C7. A call of \<^verbatim>\<open>list_emails\<close> with no cursor sends a URL whose query string is
  \<^verbatim>\<open>limit=\<close> followed by the limit and nothing else, so no cursor parameter is sent. A
  response object without the \<^verbatim>\<open>nextCursor\<close> field, whose other fields map without an
  exception, yields a list whose \<open>next_cursor\<close> is \<^verbatim>\<open>None\<close>.
\<close>

theorem list_emails_absent_cursor:
  "trace (snd (list_emails rt c address limit None w)) =
     trace w @ [Requested \<lparr>rq_method = ''GET'',
                           rq_url = base_url c @ ''/mailbox/'' @ quote address []
                                    @ ''?limit='' @ str_int limit,
                           rq_headers = build_headers c,
                           rq_data = None\<rparr>]
   \<and> ((\<forall>req. snd (urlopen rt (sent w) req (timeout c)) = Response body headers) \<and>
       json_loads rt body = Parsed (JObj m) \<and> map_of m ''nextCursor'' = None \<and>
       map_of m ''data'' = Some d \<and> iterate d = Inr es \<and>
       comprehension summary_of es = Inr emails \<and> map_of m ''total'' = Some t \<longrightarrow>
       fst (list_emails rt c address limit cursor w)
         = Inr \<lparr>data = emails, next_cursor = JNull, total = t\<rparr>)"
proof (intro conjI impI)
  show "trace (snd (list_emails rt c address limit None w)) =
     trace w @ [Requested \<lparr>rq_method = ''GET'',
                           rq_url = base_url c @ ''/mailbox/'' @ quote address []
                                    @ ''?limit='' @ str_int limit,
                           rq_headers = build_headers c,
                           rq_data = None\<rparr>]"
    by (simp add: list_emails_def request_eq Let_def build_request_def build_url_def limit_query)
next
  assume h: "(\<forall>req. snd (urlopen rt (sent w) req (timeout c)) = Response body headers) \<and>
       json_loads rt body = Parsed (JObj m) \<and> map_of m ''nextCursor'' = None \<and>
       map_of m ''data'' = Some d \<and> iterate d = Inr es \<and>
       comprehension summary_of es = Inr emails \<and> map_of m ''total'' = Some t"
  then have "list_of (JObj m) = Inr \<lparr>data = emails, next_cursor = JNull, total = t\<rparr>"
    by (simp add: list_of_def andthen_def)
  with h show "fst (list_emails rt c address limit cursor w)
         = Inr \<lparr>data = emails, next_cursor = JNull, total = t\<rparr>"
    by (simp add: list_emails_def request_eq Let_def receive_def as_json_def andthen_def)
qed

theorem list_emails_absent_cursor_witness:
  "trace (snd (list_emails rt_quiet client0 ''a+b@example.com'' 20 None w0)) =
     [Requested \<lparr>rq_method = ''GET'',
                 rq_url = ''https://api.vanish.host/mailbox/a%2Bb%40example.com?limit=20'',
                 rq_headers = [(''Content-Type'', ''application/json'')],
                 rq_data = None\<rparr>]
   \<and> fst (list_emails rt_quiet client0 ''a+b@example.com'' 20 None w0)
         = Inr \<lparr>data = [], next_cursor = JNull, total = JInt 0\<rparr>"
proof -
  have "(\<forall>req. snd (urlopen rt_quiet (sent w0) req (timeout client0)) = Response page0 []) \<and>
       json_loads rt_quiet page0 = Parsed (JObj [(''data'', JArr []), (''total'', JInt 0)]) \<and>
       map_of [(''data'', JArr []), (''total'', JInt 0)] ''nextCursor'' = None \<and>
       map_of [(''data'', JArr []), (''total'', JInt 0)] ''data'' = Some (JArr []) \<and>
       iterate (JArr []) = Inr [] \<and>
       comprehension summary_of [] = Inr [] \<and>
       map_of [(''data'', JArr []), (''total'', JInt 0)] ''total'' = Some (JInt 0)"
    by (simp add: rt_quiet_def scripted_def pages_def)
  with list_emails_absent_cursor[of rt_quiet client0 "''a+b@example.com''" 20 w0 page0 "[]"
      "[(''data'', JArr []), (''total'', JInt 0)]" "JArr []" "[]" "[]" "JInt 0" None]
  show ?thesis
    by (simp add: w0_def base_url_client0 build_headers_client0 quote_example str_int_def digit_char_def)
qed

section \<open>Responses\<close>

text \<open>
  Claim C8. For a response that decodes to a JSON object: \<^verbatim>\<open>get_email\<close> on an object with
  no \<^verbatim>\<open>attachments\<close> field, whose required fields are there and whose timestamp parses,
  returns the detail with an empty attachment list; \<^verbatim>\<open>delete_email\<close> on an object with no
  \<^verbatim>\<open>success\<close> field returns \<^verbatim>\<open>False\<close>; \<^verbatim>\<open>delete_mailbox\<close> on an object with no
  \<^verbatim>\<open>deleted\<close> field returns 0.
\<close>

theorem absent_fields_default:
  assumes "\<forall>req. snd (urlopen rt (sent w) req (timeout c)) = Response body headers"
    and "json_loads rt body = Parsed (JObj m)"
  shows "(map_of m ''attachments'' = None \<and> map_of m ''id'' = Some i \<and>
          map_of m ''from'' = Some f \<and> map_of m ''to'' = Some t \<and>
          map_of m ''subject'' = Some s \<and> map_of m ''html'' = Some h \<and>
          map_of m ''text'' = Some x \<and> map_of m ''receivedAt'' = Some r \<and>
          received_at_of r = Inr dt \<and> map_of m ''hasAttachments'' = Some ha \<longrightarrow>
          fst (get_email rt c email_id w) =
            Inr \<lparr>ed_id = i, ed_sender = f, ed_to = t, ed_subject = s, ed_html = h, ed_text = x,
                 ed_received_at = dt, ed_has_attachments = ha, ed_attachments = []\<rparr>)
       \<and> (map_of m ''success'' = None \<longrightarrow>
            fst (delete_email rt c email_id w) = Inr (JBool False))
       \<and> (map_of m ''deleted'' = None \<longrightarrow>
            fst (delete_mailbox rt c address w) = Inr (JInt 0))"
  using assms
  by (simp add: get_email_def delete_email_def delete_mailbox_def request_eq receive_def
      as_json_def detail_of_def andthen_def Let_def)

theorem absent_fields_default_witness:
  \<open>fst (get_email (rt_always (Response detail1 [])) client0 ''e1'' w0) =
     Inr \<lparr>ed_id = JStr ''e1'', ed_sender = JStr ''alice@example.com'',
          ed_to = JArr [JStr ''a+b@example.com''], ed_subject = JStr ''Hi'',
          ed_html = JStr ''<p>Hello</p>'', ed_text = JStr ''Hello'',
          ed_received_at = \<lparr>year = 2024, month = 1, day = 15, hour = 10, minute = 30,
                             second = 0, microsecond = 0, tzinfo = Some 0\<rparr>,
          ed_has_attachments = JBool False, ed_attachments = []\<rparr>
   \<and> fst (delete_email (rt_always (Response ''{}'' [])) client0 ''e1'' w0) = Inr (JBool False)
   \<and> fst (delete_mailbox (rt_always (Response ''{}'' [])) client0 ''a+b@example.com'' w0)
       = Inr (JInt 0)\<close>
proof -
  have A: "fst (get_email (rt_always (Response detail1 [])) client0 ''e1'' w0) =
     Inr \<lparr>ed_id = JStr ''e1'', ed_sender = JStr ''alice@example.com'',
          ed_to = JArr [JStr ''a+b@example.com''], ed_subject = JStr ''Hi'',
          ed_html = JStr ''<p>Hello</p>'', ed_text = JStr ''Hello'',
          ed_received_at = \<lparr>year = 2024, month = 1, day = 15, hour = 10, minute = 30,
                             second = 0, microsecond = 0, tzinfo = Some 0\<rparr>,
          ed_has_attachments = JBool False, ed_attachments = []\<rparr>"
    using absent_fields_default[of "rt_always (Response detail1 [])" w0 client0 detail1 "[]",
        OF _ detail1_decoded[unfolded mail1_detail_def],
        of "JStr ''e1''" "JStr ''alice@example.com''" "JArr [JStr ''a+b@example.com'']"
           "JStr ''Hi''" "JStr ''<p>Hello</p>''" "JStr ''Hello''" "JStr ''2024-01-15T10:30:00Z''"
           _ "JBool False" "''e1''"]
    by (simp add: rt_always_outcome received_at_example)
  have B: \<open>fst (delete_email (rt_always (Response ''{}'' [])) client0 ''e1'' w0) = Inr (JBool False)
   \<and> fst (delete_mailbox (rt_always (Response ''{}'' [])) client0 ''a+b@example.com'' w0)
       = Inr (JInt 0)\<close>
    using absent_fields_default[of \<open>rt_always (Response ''{}'' [])\<close> w0 client0 \<open>''{}''\<close> "[]",
        OF _ empty_object_decoded]
    by (simp add: rt_always_outcome)
  from A B show ?thesis by simp
qed

text \<open>
  Claim C6, as the code has it. Let \<open>d\<close> be a string of at least seven bytes without
  \<^verbatim>\<open>Z\<close> whose date ends at \<open>p\<close> and is followed by a whole separator character, so that
  \<open>d\<close> followed by \<^verbatim>\<open>Z\<close> is a wire timestamp that goes on after its date. The client never
  makes a naive value of it: \<^verbatim>\<open>replace\<close> and \<^verbatim>\<open>datetime.fromisoformat\<close> either raise
  \<^verbatim>\<open>ValueError\<close> or give a value whose time zone is UTC, and they give \<open>dt\<close> with the time
  zone UTC whenever \<^verbatim>\<open>datetime.fromisoformat\<close> reads \<open>d\<close> itself as the naive value \<open>dt\<close>.
  This value is the \<open>received_at\<close> of every summary and detail built from an object with
  this \<^verbatim>\<open>receivedAt\<close>. In particular \<^verbatim>\<open>2024-01-15T10:30:00Z\<close> becomes 2024-01-15 10:30:00 UTC.
\<close>

theorem received_at_is_utc:
  assumes "CHR ''Z'' \<notin> set d" and "7 \<le> length d"
    and "find_isoformat_datetime_separator d = Some p"
    and "p + separator_width (d ! p) \<le> length d"
  shows "(\<forall>r. received_at_of (JStr (d @ ''Z'')) = Inr r \<longrightarrow> tzinfo r = Some 0)
       \<and> (fromisoformat d = Inr dt \<and> tzinfo dt = None \<longrightarrow>
            received_at_of (JStr (d @ ''Z'')) = Inr (dt\<lparr>tzinfo := Some 0\<rparr>))
       \<and> (summary_of (JObj m) = Inr s \<and> map_of m ''receivedAt'' = Some (JStr (d @ ''Z'')) \<longrightarrow>
            tzinfo (es_received_at s) = Some 0
            \<and> (fromisoformat d = Inr dt \<and> tzinfo dt = None \<longrightarrow>
                 es_received_at s = dt\<lparr>tzinfo := Some 0\<rparr>))
       \<and> (detail_of (JObj m') = Inr e \<and> map_of m' ''receivedAt'' = Some (JStr (d @ ''Z'')) \<longrightarrow>
            tzinfo (ed_received_at e) = Some 0
            \<and> (fromisoformat d = Inr dt \<and> tzinfo dt = None \<longrightarrow>
                 ed_received_at e = dt\<lparr>tzinfo := Some 0\<rparr>))
       \<and> received_at_of (JStr ''2024-01-15T10:30:00Z'') =
            Inr \<lparr>year = 2024, month = 1, day = 15, hour = 10, minute = 30, second = 0,
                 microsecond = 0, tzinfo = Some 0\<rparr>"
proof -
  have "0 < separator_width (d ! p)" by (simp add: separator_width_def)
  with assms(4) have p: "p < length d" by simp
  have w: "received_at_of (JStr (d @ ''Z'')) = fromisoformat (d @ ''+00:00'')"
    by (simp add: received_at_of_def replace_Z_suffix[OF assms(1)])
  have aware: "\<And>r. received_at_of (JStr (d @ ''Z'')) = Inr r \<Longrightarrow> tzinfo r = Some 0"
    unfolding w by (rule fromisoformat_appended[OF _ assms(2,3,4)])
  have utc: "fromisoformat d = Inr dt \<and> tzinfo dt = None \<longrightarrow>
      received_at_of (JStr (d @ ''Z'')) = Inr (dt\<lparr>tzinfo := Some 0\<rparr>)"
    unfolding w using fromisoformat_utc[OF _ _ assms(3) p] by blast
  have "summary_of (JObj m) = Inr s \<and> map_of m ''receivedAt'' = Some (JStr (d @ ''Z'')) \<longrightarrow>
            tzinfo (es_received_at s) = Some 0
            \<and> (fromisoformat d = Inr dt \<and> tzinfo dt = None \<longrightarrow>
                 es_received_at s = dt\<lparr>tzinfo := Some 0\<rparr>)"
    using summary_received_at[of m s "JStr (d @ ''Z'')"] aware utc by auto
  moreover
  have "detail_of (JObj m') = Inr e \<and> map_of m' ''receivedAt'' = Some (JStr (d @ ''Z'')) \<longrightarrow>
            tzinfo (ed_received_at e) = Some 0
            \<and> (fromisoformat d = Inr dt \<and> tzinfo dt = None \<longrightarrow>
                 ed_received_at e = dt\<lparr>tzinfo := Some 0\<rparr>)"
    using detail_received_at[of m' e "JStr (d @ ''Z'')"] aware utc by auto
  ultimately show ?thesis using aware utc received_at_example by blast
qed

theorem received_at_is_utc_witness:
  "CHR ''Z'' \<notin> set ''2024-01-15T10:30:00''
   \<and> find_isoformat_datetime_separator ''2024-01-15T10:30:00'' = Some 10
   \<and> separator_width (CHR ''T'') = 1
   \<and> fromisoformat ''2024-01-15T10:30:00'' =
     Inr \<lparr>year = 2024, month = 1, day = 15, hour = 10, minute = 30, second = 0,
          microsecond = 0, tzinfo = None\<rparr>
   \<and> received_at_of (JStr ''2024-01-15T10:30:00Z'') =
     Inr \<lparr>year = 2024, month = 1, day = 15, hour = 10, minute = 30, second = 0,
          microsecond = 0, tzinfo = Some 0\<rparr>
   \<and> summary_of mail1 = Inr summary1
   \<and> es_received_at summary1 =
     \<lparr>year = 2024, month = 1, day = 15, hour = 10, minute = 30, second = 0,
      microsecond = 0, tzinfo = Some 0\<rparr>
   \<and> (\<exists>e. detail_of mail1_detail = Inr e \<and>
          ed_received_at e =
            \<lparr>year = 2024, month = 1, day = 15, hour = 10, minute = 30, second = 0,
             microsecond = 0, tzinfo = Some 0\<rparr>)"
proof -
  let ?d = "''2024-01-15T10:30:00''"
  let ?m = "[(''id'', JStr ''e1''), (''from'', JStr ''alice@example.com''),
           (''subject'', JStr ''Hi''), (''textPreview'', JStr ''Hello''),
           (''receivedAt'', JStr ''2024-01-15T10:30:00Z''),
           (''hasAttachments'', JBool False)]"
  let ?m' = "[(''id'', JStr ''e1''), (''from'', JStr ''alice@example.com''),
            (''to'', JArr [JStr ''a+b@example.com'']), (''subject'', JStr ''Hi''),
            (''html'', JStr ''<p>Hello</p>''), (''text'', JStr ''Hello''),
            (''receivedAt'', JStr ''2024-01-15T10:30:00Z''),
            (''hasAttachments'', JBool False)]"
  obtain e where e: "detail_of (JObj ?m') = Inr e"
    using detail_of_mail1 by (simp add: mail1_detail_def)
  have z: "CHR ''Z'' \<notin> set ?d" and l: "7 \<le> length ?d" by simp_all
  have sep: "find_isoformat_datetime_separator ?d = Some 10"
    by (simp add: find_isoformat_datetime_separator_def)
  have wd: "separator_width (CHR ''T'') = 1" by (simp add: separator_width_def)
  then have whole: "10 + separator_width (?d ! 10) \<le> length ?d" by simp
  from received_at_is_utc[OF z l sep whole, of
      "\<lparr>year = 2024, month = 1, day = 15, hour = 10, minute = 30, second = 0,
        microsecond = 0, tzinfo = None\<rparr>" ?m summary1 ?m' e]
    fromisoformat_example summary_of_mail1 e sep wd
  show ?thesis by (simp add: mail1_def mail1_detail_def)
qed

text \<open>
  Claim C6 as stated, for every ISO-8601 timestamp with the suffix \<^verbatim>\<open>Z\<close>, does not hold:
  \<^verbatim>\<open>datetime.fromisoformat\<close> does not read all of ISO 8601. The leap second at the end of 2016
  is written \<^verbatim>\<open>2016-12-31T23:59:60Z\<close> and the 15th day of 2024 can be written as the ordinal
  date \<^verbatim>\<open>2024-015\<close>; for both the client raises \<^verbatim>\<open>ValueError\<close> and builds no summary.
\<close>

theorem leap_second_not_read:
  "received_at_of (JStr ''2016-12-31T23:59:60Z'') = Inl ValueError
   \<and> received_at_of (JStr ''2024-015T10:30:00Z'') = Inl ValueError
   \<and> summary_of (JObj [(''id'', JStr ''e1''), (''from'', JStr ''alice@example.com''),
                       (''subject'', JStr ''Hi''), (''textPreview'', JStr ''Hello''),
                       (''receivedAt'', JStr ''2016-12-31T23:59:60Z''),
                       (''hasAttachments'', JBool False)]) = Inl ValueError"
proof -
  have leap: "received_at_of (JStr ''2016-12-31T23:59:60Z'') = Inl ValueError"
    by (simp add: received_at_of_def replace_def fromisoformat_eval)
  have ordinal: "received_at_of (JStr ''2024-015T10:30:00Z'') = Inl ValueError"
    by (simp add: received_at_of_def replace_def fromisoformat_eval)
  show ?thesis by (simp add: leap ordinal summary_of_def andthen_def)
qed

text \<open>
  The time part matters. A date followed by \<^verbatim>\<open>Z\<close>, which is not an ISO-8601 timestamp, is
  read as that date at midnight with no time zone: the inserted \<^verbatim>\<open>+\<close> is taken for the
  separator and \<^verbatim>\<open>00:00\<close> for the time.
\<close>

lemma date_with_Z_is_naive:
  "received_at_of (JStr ''2024-01-15Z'') =
     Inr \<lparr>year = 2024, month = 1, day = 15, hour = 0, minute = 0, second = 0,
          microsecond = 0, tzinfo = None\<rparr>"
  by (simp add: received_at_of_def replace_def fromisoformat_eval)

end
